theory Spec2Isabelle
  imports Complex_Main
begin

section \<open>JavaScript values\<close>

text \<open>
  The engine of \<^verbatim>\<open>src/internals/helpers.ts\<close> takes a pattern and a value of type
  \<^verbatim>\<open>any\<close>. Both are modelled by one type of finite JavaScript values.

  A number is a double. \<open>Fin q\<close> is the finite double whose exact value is \<open>q\<close>
  (\<open>Fin 0\<close> is \<open>+0\<close>), \<open>NegZero\<close> is \<open>-0\<close>; JavaScript cannot tell two NaNs apart,
  so there is one \<open>NaN\<close>. Every double has exactly one representation.
\<close>

datatype jsnum = NaN | PosInf | NegInf | NegZero | Fin rat

text \<open>
  The values that are not objects for \<^verbatim>\<open>isObject\<close>. A function object is known by
  its identity only (its own properties are not modelled); a symbol likewise.
\<close>

datatype prim =
    JUndefined
  | JNull
  | JBool bool
  | JNum jsnum
  | JStr string
  | JBigInt int
  | JSym nat
  | JFun nat

text \<open>
  Besides its own enumerable properties an object has the string-keyed properties
  that only \<^verbatim>\<open>in\<close> and \<^verbatim>\<open>[]\<close> find: own but not enumerable, or inherited through the
  prototype chain. Reading one gives a value, or runs a getter. A getter that returns
  cannot be told from the value it returns by the one read the engine makes; a getter
  that throws is \<open>Getter_throws\<close> with the value thrown.
\<close>

datatype 'v other_property = Value 'v | Getter_throws 'v

text \<open>
  An array carries its elements (dense, no holes); any other object its own enumerable
  string-keyed data properties, in the order of \<^verbatim>\<open>Object.keys\<close> (keys distinct). Both
  carry their other properties, the nearest first, and the value stored under the key
  \<^verbatim>\<open>symbols.matcher\<close> if there is one. That value can be anything; the interface
  \<^verbatim>\<open>Matcher\<close> (types/Pattern.ts) asks for a function returning the matcher protocol.
  Values are finite trees: cyclic objects, proxies and own enumerable properties with
  getters are outside the model.
\<close>

datatype jsval =
    Prim prim
  | Arr "jsval list" "(string \<times> jsval other_property) list" "jsval option"
  | Obj "(string \<times> jsval) list" "(string \<times> jsval other_property) list" "jsval option"

subsection \<open>The matcher protocol (types/Pattern.ts)\<close>

datatype MatcherType =
    MT_not | MT_optional | MT_or | MT_and | MT_array
  | MT_map | MT_set | MT_select | MT_default | MT_custom

text \<open>\<^verbatim>\<open>MatchResult = { matched: boolean; selections?: Record<string, any> }\<close>\<close>

record MatchResult =
  matched :: bool
  selections :: "(string \<times> jsval) list option"

text \<open>
  What leaves a call instead of a result: a value thrown by host code (a matcher's
  \<^verbatim>\<open>match\<close>, a getter), or the \<^verbatim>\<open>TypeError\<close> that the language raises when something
  that is not a function is called, or when \<^verbatim>\<open>in\<close> is applied to a primitive.
\<close>

datatype exn = Thrown jsval | TypeError

text \<open>
  \<^verbatim>\<open>MatcherProtocol\<close>: \<^verbatim>\<open>match\<close> is host code and may throw; the optional method
  \<^verbatim>\<open>getSelectionKeys\<close> is given by the list it returns; \<^verbatim>\<open>matcherType\<close> is optional.
\<close>

record MatcherProtocol =
  match :: "jsval \<Rightarrow> exn + MatchResult"
  matcher_getSelectionKeys :: "string list option"
  matcherType :: "MatcherType option"

text \<open>
  The host: what the function \<open>m\<close> returns when it is called as the accessor,
  \<^verbatim>\<open>pattern[symbols.matcher]()\<close>. A function stored under the matcher key is taken to
  return a protocol object, as the interface \<^verbatim>\<open>Matcher\<close> says.
\<close>

type_synonym host = "nat \<Rightarrow> MatcherProtocol"

text \<open>
  The calls the engine makes into host code, in order: \<^verbatim>\<open>matcher.match(value)\<close> of
  the matcher with accessor \<open>m\<close>, and \<^verbatim>\<open>select(key, value)\<close>. The callback
  \<^verbatim>\<open>select\<close> returns nothing and is taken to return, so what any accumulator sees is
  this sequence.
\<close>

datatype event = Match_call nat jsval | Select_call string jsval

type_synonym outcome = "event list \<times> (exn + bool)"

section \<open>Equality and shape predicates\<close>

text \<open>JavaScript's \<^verbatim>\<open>ToBoolean\<close> and \<^verbatim>\<open>typeof\<close>.\<close>

fun truthy :: "jsval \<Rightarrow> bool" where
  "truthy (Prim JUndefined) = False"
| "truthy (Prim JNull) = False"
| "truthy (Prim (JBool b)) = b"
| "truthy (Prim (JNum x)) = (x \<noteq> NaN \<and> x \<noteq> Fin 0 \<and> x \<noteq> NegZero)"
| "truthy (Prim (JStr s)) = (s \<noteq> [])"
| "truthy (Prim (JBigInt i)) = (i \<noteq> 0)"
| "truthy (Prim (JSym _)) = True"
| "truthy (Prim (JFun _)) = True"
| "truthy (Arr _ _ _) = True"
| "truthy (Obj _ _ _) = True"

fun typeof :: "jsval \<Rightarrow> string" where
  "typeof (Prim JUndefined) = ''undefined''"
| "typeof (Prim JNull) = ''object''"
| "typeof (Prim (JBool _)) = ''boolean''"
| "typeof (Prim (JNum _)) = ''number''"
| "typeof (Prim (JStr _)) = ''string''"
| "typeof (Prim (JBigInt _)) = ''bigint''"
| "typeof (Prim (JSym _)) = ''symbol''"
| "typeof (Prim (JFun _)) = ''function''"
| "typeof (Arr _ _ _) = ''object''"
| "typeof (Obj _ _ _) = ''object''"

text \<open>\<^verbatim>\<open>isObject = (value) => Boolean(value && typeof value === 'object')\<close>\<close>

definition isObject :: "jsval \<Rightarrow> bool" where
  "isObject v = (truthy v \<and> typeof v = ''object'')"

text \<open>
  \<^verbatim>\<open>x[symbols.matcher]\<close>: the value stored under the key, \<^verbatim>\<open>undefined\<close> when there is
  none. \<open>has_matcher_key\<close> says that the object exposes a property under the key.
\<close>

fun matcher_slot :: "jsval \<Rightarrow> jsval option" where
  "matcher_slot (Prim _) = None"
| "matcher_slot (Arr _ _ s) = s"
| "matcher_slot (Obj _ _ s) = s"

definition has_matcher_key :: "jsval \<Rightarrow> bool" where
  "has_matcher_key x = (matcher_slot x \<noteq> None)"

definition matcher_prop :: "jsval \<Rightarrow> jsval" where
  "matcher_prop x = (case matcher_slot x of None \<Rightarrow> Prim JUndefined | Some y \<Rightarrow> y)"

text \<open>\<^verbatim>\<open>isMatcher = (x) => pattern && !!pattern[symbols.matcher]\<close>\<close>

definition isMatcher :: "jsval \<Rightarrow> bool" where
  "isMatcher x = (truthy x \<and> truthy (matcher_prop x))"

text \<open>
  \<^verbatim>\<open>pattern[symbols.matcher]()\<close>: calling a function gives its protocol object, calling
  anything else is a \<^verbatim>\<open>TypeError\<close>.
\<close>

definition call_matcher_prop :: "host \<Rightarrow> jsval \<Rightarrow> exn + MatcherProtocol" where
  "call_matcher_prop h x =
     (case matcher_prop x of Prim (JFun m) \<Rightarrow> Inr (h m) | _ \<Rightarrow> Inl TypeError)"

text \<open>
  \<^verbatim>\<open>isOptionalPattern = (x) => isMatcher(x) && x[symbols.matcher]().matcherType === 'optional'\<close>
\<close>

definition isOptionalPattern :: "host \<Rightarrow> jsval \<Rightarrow> exn + bool" where
  "isOptionalPattern h x =
     (if isMatcher x
      then (case call_matcher_prop h x of
              Inl e \<Rightarrow> Inl e
            | Inr protocol \<Rightarrow> Inr (matcherType protocol = Some MT_optional))
      else Inr False)"

text \<open>
  \<^verbatim>\<open>Object.is\<close> is SameValue. On numbers (ECMAScript, Number::sameValue): NaN is the
  same value as NaN, the two zeros differ, otherwise the numbers are compared.
\<close>

definition Number_sameValue :: "jsnum \<Rightarrow> jsnum \<Rightarrow> bool" where
  "Number_sameValue x y =
     (if x = NaN \<and> y = NaN then True
      else if x = Fin 0 \<and> y = NegZero then False
      else if x = NegZero \<and> y = Fin 0 then False
      else x = y)"

definition SameValue :: "prim \<Rightarrow> prim \<Rightarrow> bool" where
  "SameValue p q =
     (case (p, q) of
        (JNum x, JNum y) \<Rightarrow> Number_sameValue x y
      | _ \<Rightarrow> p = q)"

text \<open>
  \<^verbatim>\<open>Object.is(value, pattern)\<close> at its only call (line 75), where \<^verbatim>\<open>pattern\<close> is not
  an object: an object is never the same value as a primitive or a function.
\<close>

definition Object_is :: "jsval \<Rightarrow> prim \<Rightarrow> bool" where
  "Object_is v q = (case v of Prim p \<Rightarrow> SameValue p q | _ \<Rightarrow> False)"

subsection \<open>Properties of an object\<close>

definition Object_keys :: "(string \<times> jsval) list \<Rightarrow> string list" where
  "Object_keys props = map fst props"

definition Object_values :: "(string \<times> jsval) list \<Rightarrow> jsval list" where
  "Object_values props = map snd props"

text \<open>The canonical decimal string of an array index.\<close>

fun string_of_nat :: "nat \<Rightarrow> string" where
  "string_of_nat n =
     (if n < 10 then [''0123456789'' ! n]
      else string_of_nat (n div 10) @ [''0123456789'' ! (n mod 10)])"

declare string_of_nat.simps [simp del]

text \<open>
  The own string-keyed properties of an object: those of a record, and the indices and
  \<^verbatim>\<open>length\<close> of an array.
\<close>

fun own_properties :: "jsval \<Rightarrow> (string \<times> jsval) list" where
  "own_properties (Prim _) = []"
| "own_properties (Obj props _ _) = props"
| "own_properties (Arr xs _ _) =
     map (\<lambda>i. (string_of_nat i, xs ! i)) [0..<length xs]
     @ [(''length'', Prim (JNum (Fin (of_nat (length xs)))))]"

fun other_properties :: "jsval \<Rightarrow> (string \<times> jsval other_property) list" where
  "other_properties (Prim _) = []"
| "other_properties (Obj _ others _) = others"
| "other_properties (Arr _ others _) = others"

text \<open>
  All the string-keyed properties that \<^verbatim>\<open>k in value\<close> and \<^verbatim>\<open>value[k]\<close> see on an
  object, the own enumerable ones first.
\<close>

definition properties :: "jsval \<Rightarrow> (string \<times> jsval other_property) list" where
  "properties v = map (\<lambda>(k, x). (k, Value x)) (own_properties v) @ other_properties v"

text \<open>\<^verbatim>\<open>k in value\<close> on an object: own and inherited keys alike.\<close>

definition has_property :: "jsval \<Rightarrow> string \<Rightarrow> bool" where
  "has_property v k = (k \<in> set (map fst (properties v)))"

text \<open>
  The operator \<^verbatim>\<open>in\<close>: a \<^verbatim>\<open>TypeError\<close> when the right operand is a primitive. (A
  function is an object for \<^verbatim>\<open>in\<close>; its properties are not modelled, and no function
  gets here, see line 47.)
\<close>

definition js_in :: "string \<Rightarrow> jsval \<Rightarrow> exn + bool" where
  "js_in k v =
     (case v of
        Prim (JFun f) \<Rightarrow> Inr False
      | Prim _ \<Rightarrow> Inl TypeError
      | _ \<Rightarrow> Inr (has_property v k))"

text \<open>
  \<^verbatim>\<open>value[k]\<close>: the nearest property of that name, \<^verbatim>\<open>undefined\<close> when there is none;
  a throwing getter throws. Reading a property of \<^verbatim>\<open>undefined\<close> or \<^verbatim>\<open>null\<close> is a
  \<^verbatim>\<open>TypeError\<close>. (The properties that the other primitives borrow from their wrapper
  objects are not modelled; the engine reads \<^verbatim>\<open>value[k]\<close> of objects only.)
\<close>

definition get_property :: "jsval \<Rightarrow> string \<Rightarrow> exn + jsval" where
  "get_property v k =
     (if v = Prim JUndefined \<or> v = Prim JNull then Inl TypeError
      else (case map_of (properties v) k of
              None \<Rightarrow> Inr (Prim JUndefined)
            | Some (Value x) \<Rightarrow> Inr x
            | Some (Getter_throws e) \<Rightarrow> Inl (Thrown e)))"

text \<open>\<^verbatim>\<open>value[i]\<close> on the elements of an array.\<close>

definition array_get :: "jsval list \<Rightarrow> nat \<Rightarrow> jsval" where
  "array_get vs i = (if i < length vs then vs ! i else Prim JUndefined)"

subsection \<open>The built-in prototypes\<close>

text \<open>
  What an object literal and an array literal inherit: the properties of
  \<^verbatim>\<open>Object.prototype\<close> and of \<^verbatim>\<open>Array.prototype\<close> (ECMAScript 2023; each built-in
  function is a function object of its own). \<^verbatim>\<open>__proto__\<close> reads as the prototype of
  the object it is read from.
\<close>

definition Object_prototype_properties :: "jsval \<Rightarrow> (string \<times> jsval other_property) list" where
  "Object_prototype_properties proto =
     [
      (''constructor'', Value (Prim (JFun 1000))),
      (''__defineGetter__'', Value (Prim (JFun 1001))),
      (''__defineSetter__'', Value (Prim (JFun 1002))),
      (''hasOwnProperty'', Value (Prim (JFun 1003))),
      (''__lookupGetter__'', Value (Prim (JFun 1004))),
      (''__lookupSetter__'', Value (Prim (JFun 1005))),
      (''isPrototypeOf'', Value (Prim (JFun 1006))),
      (''propertyIsEnumerable'', Value (Prim (JFun 1007))),
      (''toString'', Value (Prim (JFun 1008))), (''valueOf'', Value (Prim (JFun 1009))),
      (''toLocaleString'', Value (Prim (JFun 1010))),
      (''__proto__'', Value proto)]"

definition Object_prototype :: jsval where
  "Object_prototype = Obj [] (Object_prototype_properties (Prim JNull)) None"

definition Array_prototype_properties :: "(string \<times> jsval other_property) list" where
  "Array_prototype_properties =
     [
      (''constructor'', Value (Prim (JFun 1100))), (''at'', Value (Prim (JFun 1101))),
      (''concat'', Value (Prim (JFun 1102))), (''copyWithin'', Value (Prim (JFun 1103))),
      (''fill'', Value (Prim (JFun 1104))), (''find'', Value (Prim (JFun 1105))),
      (''findIndex'', Value (Prim (JFun 1106))), (''findLast'', Value (Prim (JFun 1107))),
      (''findLastIndex'', Value (Prim (JFun 1108))),
      (''lastIndexOf'', Value (Prim (JFun 1109))), (''pop'', Value (Prim (JFun 1110))),
      (''push'', Value (Prim (JFun 1111))), (''reverse'', Value (Prim (JFun 1112))),
      (''shift'', Value (Prim (JFun 1113))), (''unshift'', Value (Prim (JFun 1114))),
      (''slice'', Value (Prim (JFun 1115))), (''sort'', Value (Prim (JFun 1116))),
      (''splice'', Value (Prim (JFun 1117))), (''includes'', Value (Prim (JFun 1118))),
      (''indexOf'', Value (Prim (JFun 1119))), (''join'', Value (Prim (JFun 1120))),
      (''keys'', Value (Prim (JFun 1121))), (''entries'', Value (Prim (JFun 1122))),
      (''values'', Value (Prim (JFun 1123))), (''forEach'', Value (Prim (JFun 1124))),
      (''filter'', Value (Prim (JFun 1125))), (''flat'', Value (Prim (JFun 1126))),
      (''flatMap'', Value (Prim (JFun 1127))), (''map'', Value (Prim (JFun 1128))),
      (''every'', Value (Prim (JFun 1129))), (''some'', Value (Prim (JFun 1130))),
      (''reduce'', Value (Prim (JFun 1131))), (''reduceRight'', Value (Prim (JFun 1132))),
      (''toLocaleString'', Value (Prim (JFun 1133))),
      (''toString'', Value (Prim (JFun 1134))), (''toReversed'', Value (Prim (JFun 1135))),
      (''toSorted'', Value (Prim (JFun 1136))), (''toSpliced'', Value (Prim (JFun 1137))),
      (''with'', Value (Prim (JFun 1138)))]"

definition Array_prototype :: jsval where
  "Array_prototype =
     Arr [] (Array_prototype_properties @ Object_prototype_properties Object_prototype) None"

text \<open>The object literal \<^verbatim>\<open>{k: v, ...}\<close> and the array literal \<^verbatim>\<open>[x, ...]\<close>.\<close>

definition object_literal :: "(string \<times> jsval) list \<Rightarrow> jsval" where
  "object_literal props = Obj props (Object_prototype_properties Object_prototype) None"

definition array_literal :: "jsval list \<Rightarrow> jsval" where
  "array_literal xs =
     Arr xs (Array_prototype_properties @ Object_prototype_properties Array_prototype) None"

text \<open>
  An object literal with a value under the matcher key; \<open>matcher_object m\<close> is a matcher
  whose accessor is the function \<open>m\<close>.
\<close>

definition keyed_object :: "(string \<times> jsval) list \<Rightarrow> jsval \<Rightarrow> jsval" where
  "keyed_object props x = Obj props (Object_prototype_properties Object_prototype) (Some x)"

definition matcher_object :: "nat \<Rightarrow> jsval" where
  "matcher_object m = keyed_object [] (Prim (JFun m))"

section \<open>The structural match engine\<close>

text \<open>
  Lines 39 to 44. The value under the matcher key is called: a \<^verbatim>\<open>TypeError\<close> unless it
  is a function. The matcher's \<^verbatim>\<open>match\<close> is called with the value; when it matched and
  returned selections, \<^verbatim>\<open>select\<close> is called for each key of them; the result is the
  flag \<^verbatim>\<open>matched\<close>. An exception of \<^verbatim>\<open>match\<close> is not caught.
\<close>

definition select_calls :: "(string \<times> jsval) list \<Rightarrow> event list" where
  "select_calls sels =
     map (\<lambda>key. Select_call key
            (case map_of sels key of None \<Rightarrow> Prim JUndefined | Some x \<Rightarrow> x))
         (Object_keys sels)"

definition delegate :: "host \<Rightarrow> jsval \<Rightarrow> jsval \<Rightarrow> outcome" where
  "delegate h pattern v =
     (case matcher_prop pattern of
        Prim (JFun m) \<Rightarrow>
          (case match (h m) v of
             Inl e \<Rightarrow> ([Match_call m v], Inl e)
           | Inr r \<Rightarrow>
               (Match_call m v #
                  (if matched r
                   then (case selections r of None \<Rightarrow> [] | Some sels \<Rightarrow> select_calls sels)
                   else []),
                Inr (matched r)))
      | _ \<Rightarrow> ([], Inl TypeError))"

text \<open>
  One step of \<^verbatim>\<open>Array.prototype.every\<close>: the rest of the array is visited only when
  the callback returned true; an exception ends the loop.
\<close>

definition and_then :: "outcome \<Rightarrow> outcome \<Rightarrow> outcome" where
  "and_then r1 r2 =
     (case r1 of
        (tr, Inr True) \<Rightarrow> (tr @ fst r2, snd r2)
      | _ \<Rightarrow> r1)"

text \<open>
  \<^verbatim>\<open>matchPattern(pattern, value, select)\<close>. \<^verbatim>\<open>isObject(pattern)\<close> holds for arrays and
  records and for nothing else (lemma \<open>isObject_iff\<close>); \<^verbatim>\<open>Array.isArray\<close> is the case
  distinction on the constructor \<open>Arr\<close>.
  \<open>every_elem\<close> is \<^verbatim>\<open>pattern.every((subPattern, i) => ...)\<close> from index \<open>i\<close> on,
  \<open>every_key\<close> is \<^verbatim>\<open>Object.keys(pattern).every((k) => ...)\<close> on the properties left.
  In the callback of the latter, \<^verbatim>\<open>k in value\<close> comes first, \<^verbatim>\<open>isOptionalPattern\<close> is
  asked only when the key is missing, and \<^verbatim>\<open>value[k]\<close> is read only when one of the two
  held.
\<close>

fun matchPattern :: "host \<Rightarrow> jsval \<Rightarrow> jsval \<Rightarrow> outcome"
  and every_elem :: "host \<Rightarrow> jsval list \<Rightarrow> nat \<Rightarrow> jsval list \<Rightarrow> outcome"
  and every_key :: "host \<Rightarrow> (string \<times> jsval) list \<Rightarrow> jsval \<Rightarrow> outcome"
where
  "matchPattern h (Prim q) v = ([], Inr (Object_is v q))"
| "matchPattern h (Arr ps others s) v =
     (if isMatcher (Arr ps others s) then delegate h (Arr ps others s) v
      else if \<not> isObject v then ([], Inr False)
      else (case v of
              Arr vs _ _ \<Rightarrow>
                if length ps = length vs then every_elem h ps 0 vs
                else ([], Inr False)
            | _ \<Rightarrow> ([], Inr False)))"
| "matchPattern h (Obj props others s) v =
     (if isMatcher (Obj props others s) then delegate h (Obj props others s) v
      else if \<not> isObject v then ([], Inr False)
      else every_key h props v)"
| "every_elem h [] i vs = ([], Inr True)"
| "every_elem h (subPattern # ps) i vs =
     and_then (matchPattern h subPattern (array_get vs i))
              (every_elem h ps (Suc i) vs)"
| "every_key h [] v = ([], Inr True)"
| "every_key h ((k, subPattern) # rest) v =
     and_then
       (case js_in k v of
          Inl e \<Rightarrow> ([], Inl e)
        | Inr present \<Rightarrow>
            (case (if present then Inr True else isOptionalPattern h subPattern) of
               Inl e \<Rightarrow> ([], Inl e)
             | Inr False \<Rightarrow> ([], Inr False)
             | Inr True \<Rightarrow>
                 (case get_property v k of
                    Inl e \<Rightarrow> ([], Inl e)
                  | Inr x \<Rightarrow> matchPattern h subPattern x)))
       (every_key h rest v)"

text \<open>The callback of \<^verbatim>\<open>every\<close> on one key of the pattern (lines 59 to 72).\<close>

definition key_step :: "host \<Rightarrow> string \<Rightarrow> jsval \<Rightarrow> jsval \<Rightarrow> outcome" where
  "key_step h k subPattern v = every_key h [(k, subPattern)] v"

section \<open>Selection keys\<close>

text \<open>
  \<^verbatim>\<open>flatMap = (xs, f) => xs.reduce((acc, p) => acc.concat(f(p)), [])\<close>, where a call of
  \<^verbatim>\<open>f\<close> that throws ends the reduction.
\<close>

definition flatMap :: "'a list \<Rightarrow> ('a \<Rightarrow> exn + 'b list) \<Rightarrow> exn + 'b list" where
  "flatMap xs f =
     foldl (\<lambda>acc p. case acc of
                       Inl e \<Rightarrow> Inl e
                     | Inr a \<Rightarrow> (case f p of Inl e \<Rightarrow> Inl e | Inr b \<Rightarrow> Inr (a @ b)))
           (Inr []) xs"

lemma flatMap_cong [fundef_cong]:
  "xs = ys \<Longrightarrow> (\<And>x. x \<in> set ys \<Longrightarrow> f x = g x) \<Longrightarrow> flatMap xs f = flatMap ys g"
  unfolding flatMap_def by (rule foldl_cong) (simp_all split: sum.splits)

lemma size_Object_values [termination_simp]:
  "x \<in> set (Object_values props) \<Longrightarrow>
     size x < Suc (size_list (\<lambda>p. Suc (size (snd p))) props + a + b)"
  unfolding Object_values_def by (induction props) force+

text \<open>
  \<^verbatim>\<open>getSelectionKeys(pattern)\<close>; \<^verbatim>\<open>getSelectionKeys?.() ?? []\<close> is the empty array when
  the matcher has no such method.
\<close>

fun getSelectionKeys :: "host \<Rightarrow> jsval \<Rightarrow> exn + string list" where
  "getSelectionKeys h (Prim q) = Inr []"
| "getSelectionKeys h (Arr ps others s) =
     (if isMatcher (Arr ps others s)
      then (case call_matcher_prop h (Arr ps others s) of
              Inl e \<Rightarrow> Inl e
            | Inr protocol \<Rightarrow>
                Inr (case matcher_getSelectionKeys protocol of None \<Rightarrow> [] | Some ks \<Rightarrow> ks))
      else flatMap ps (getSelectionKeys h))"
| "getSelectionKeys h (Obj props others s) =
     (if isMatcher (Obj props others s)
      then (case call_matcher_prop h (Obj props others s) of
              Inl e \<Rightarrow> Inl e
            | Inr protocol \<Rightarrow>
                Inr (case matcher_getSelectionKeys protocol of None \<Rightarrow> [] | Some ks \<Rightarrow> ks))
      else flatMap (Object_values props) (getSelectionKeys h))"

text \<open>
  The concatenation of results from left to right: the first exception if there is one.
\<close>

fun concat_results :: "(exn + 'a list) list \<Rightarrow> exn + 'a list" where
  "concat_results [] = Inr []"
| "concat_results (Inl e # rs) = Inl e"
| "concat_results (Inr xs # rs) =
     (case concat_results rs of Inl e \<Rightarrow> Inl e | Inr ys \<Rightarrow> Inr (xs @ ys))"

section \<open>Patterns without matchers, well-formed objects\<close>

text \<open>
  A pattern contains no matcher object when neither it nor any of its elements or
  property values, at any depth, is a matcher for \<^verbatim>\<open>isMatcher\<close>.
\<close>

fun matcher_free :: "jsval \<Rightarrow> bool" where
  "matcher_free (Prim q) = True"
| "matcher_free (Arr ps others s) =
     (\<not> isMatcher (Arr ps others s) \<and> (\<forall>p \<in> set ps. matcher_free p))"
| "matcher_free (Obj props others s) =
     (\<not> isMatcher (Obj props others s) \<and> (\<forall>p \<in> set (Object_values props). matcher_free p))"

text \<open>
  The accessors of the matcher objects a pattern holds, not looking inside a matcher
  object: these are the matchers the engine itself can reach.
\<close>

fun matchers_of :: "jsval \<Rightarrow> nat set" where
  "matchers_of (Prim q) = {}"
| "matchers_of (Arr ps others s) =
     (if isMatcher (Arr ps others s)
      then (case s of Some (Prim (JFun m)) \<Rightarrow> {m} | _ \<Rightarrow> {})
      else (\<Union>p \<in> set ps. matchers_of p))"
| "matchers_of (Obj props others s) =
     (if isMatcher (Obj props others s)
      then (case s of Some (Prim (JFun m)) \<Rightarrow> {m} | _ \<Rightarrow> {})
      else (\<Union>p \<in> set (Object_values props). matchers_of p))"

text \<open>
  The matcher objects of a pattern are callable when each of them, as far as the
  engine can reach, has a function under the matcher key.
\<close>

fun callable_matchers :: "jsval \<Rightarrow> bool" where
  "callable_matchers (Prim q) = True"
| "callable_matchers (Arr ps others s) =
     (if isMatcher (Arr ps others s)
      then (case s of Some (Prim (JFun m)) \<Rightarrow> True | _ \<Rightarrow> False)
      else (\<forall>p \<in> set ps. callable_matchers p))"
| "callable_matchers (Obj props others s) =
     (if isMatcher (Obj props others s)
      then (case s of Some (Prim (JFun m)) \<Rightarrow> True | _ \<Rightarrow> False)
      else (\<forall>p \<in> set (Object_values props). callable_matchers p))"

text \<open>
  A JavaScript object has each key once. The property lists of the model are
  well formed when their keys are distinct, at every depth.
\<close>

fun distinct_keys :: "jsval \<Rightarrow> bool" where
  "distinct_keys (Prim q) = True"
| "distinct_keys (Arr ps others s) = (\<forall>p \<in> set ps. distinct_keys p)"
| "distinct_keys (Obj props others s) =
     (distinct (Object_keys props) \<and> (\<forall>p \<in> set (Object_values props). distinct_keys p))"


text \<open>The calls of some matcher's \<^verbatim>\<open>match\<close> among the calls made.\<close>

fun is_match_call :: "event \<Rightarrow> bool" where
  "is_match_call (Match_call m v) = True"
| "is_match_call (Select_call k v) = False"


section \<open>An example host\<close>

text \<open>
  Four matchers in the style of the library's own: accessor 0 selects the value under
  the name \<open>x\<close> and always matches; accessor 1 is an optional string; accessor 2 is a
  guard accepting strings; accessor 3 is a guard whose predicate throws.
\<close>

definition example_host :: host where
  "example_host m =
     (if m = 0 then
        \<lparr>match = (\<lambda>v. Inr \<lparr>matched = True, selections = Some [(''x'', v)]\<rparr>),
         matcher_getSelectionKeys = Some [''x''],
         matcherType = Some MT_select\<rparr>
      else if m = 1 then
        \<lparr>match = (\<lambda>v. Inr \<lparr>matched = (v = Prim JUndefined \<or> typeof v = ''string''),
                                selections = None\<rparr>),
         matcher_getSelectionKeys = Some [],
         matcherType = Some MT_optional\<rparr>
      else if m = 2 then
        \<lparr>match = (\<lambda>v. Inr \<lparr>matched = (typeof v = ''string''), selections = None\<rparr>),
         matcher_getSelectionKeys = None,
         matcherType = None\<rparr>
      else
        \<lparr>match = (\<lambda>v. Inl (Thrown (Prim (JStr ''boom'')))),
         matcher_getSelectionKeys = None,
         matcherType = Some MT_custom\<rparr>)"

definition num :: "rat \<Rightarrow> jsval" where
  "num q = Prim (JNum (Fin q))"

definition str :: "string \<Rightarrow> jsval" where
  "str s = Prim (JStr s)"

section \<open>Basic facts\<close>

lemma isObject_simps [simp]:
  "isObject (Prim q) = False"
  "isObject (Arr ps others s) = True"
  "isObject (Obj props others s) = True"
  by (cases q; simp add: isObject_def)+

lemma isObject_iff: "isObject v \<longleftrightarrow> (\<forall>q. v \<noteq> Prim q)"
  by (cases v) simp_all

lemma isMatcher_iff: "isMatcher x \<longleftrightarrow> (\<exists>y. matcher_slot x = Some y \<and> truthy y)"
  by (cases x) (auto simp: isMatcher_def matcher_prop_def split: option.splits)

lemma isMatcher_Prim [simp]: "\<not> isMatcher (Prim q)"
  by (simp add: isMatcher_iff)

lemma isMatcher_function [simp]:
  "isMatcher (Arr ps others (Some (Prim (JFun m))))"
  "isMatcher (Obj props others (Some (Prim (JFun m))))"
  by (simp_all add: isMatcher_iff)

lemma isMatcher_absent [simp]:
  "\<not> isMatcher (Arr ps others None)"
  "\<not> isMatcher (Obj props others None)"
  by (simp_all add: isMatcher_iff)

lemma isMatcher_slot:
  "isMatcher (Arr ps others s) \<longleftrightarrow> (\<exists>y. s = Some y \<and> truthy y)"
  "isMatcher (Obj props others s) \<longleftrightarrow> (\<exists>y. s = Some y \<and> truthy y)"
  by (simp_all add: isMatcher_iff)

lemma and_then_True [simp]: "and_then r ([], Inr True) = r"
  by (cases r) (auto simp: and_then_def split: sum.splits bool.splits)

lemma snd_and_then_True:
  "snd (and_then r1 r2) = Inr True \<longleftrightarrow> snd r1 = Inr True \<and> snd r2 = Inr True"
  by (cases r1) (auto simp: and_then_def split: sum.splits bool.splits)

lemma set_fst_and_then:
  "set (fst (and_then r1 r2)) \<subseteq> set (fst r1) \<union> set (fst r2)"
  by (cases r1) (auto simp: and_then_def split: sum.splits bool.splits)





subsection \<open>Delegation\<close>

lemma delegate_throws:
  "matcher_prop pattern = Prim (JFun m) \<Longrightarrow> match (h m) v = Inl e \<Longrightarrow>
     delegate h pattern v = ([Match_call m v], Inl e)"
  by (simp add: delegate_def)

lemma delegate_returns:
  "matcher_prop pattern = Prim (JFun m) \<Longrightarrow> match (h m) v = Inr r \<Longrightarrow>
     delegate h pattern v =
       (Match_call m v #
          (if matched r
           then (case selections r of
                   None \<Rightarrow> []
                 | Some sels \<Rightarrow>
                     map (\<lambda>key. Select_call key
                            (case map_of sels key of None \<Rightarrow> Prim JUndefined | Some x \<Rightarrow> x))
                         (Object_keys sels))
           else []),
        Inr (matched r))"
  by (cases "selections r") (simp_all add: delegate_def select_calls_def)

lemma delegate_not_a_function:
  "\<forall>m. matcher_prop pattern \<noteq> Prim (JFun m) \<Longrightarrow> delegate h pattern v = ([], Inl TypeError)"
  by (auto simp: delegate_def split: jsval.splits prim.splits)

lemma matchPattern_matcher:
  "isObject pattern \<Longrightarrow> isMatcher pattern \<Longrightarrow> matchPattern h pattern v = delegate h pattern v"
  by (cases pattern) simp_all

lemma no_match_call_in_select_calls:
  "filter is_match_call (select_calls sels) = []"
  by (simp add: select_calls_def filter_empty_conv)

lemma match_calls_delegate:
  assumes "matcher_prop pattern = Prim (JFun m)"
  shows "filter is_match_call (fst (delegate h pattern v)) = [Match_call m v]"
proof (cases "match (h m) v")
  case (Inl e)
  with assms show ?thesis by (simp add: delegate_def)
next
  case (Inr r)
  show ?thesis
  proof (cases "matched r")
    case True
    with Inr assms show ?thesis
      by (cases "selections r") (simp_all add: delegate_def no_match_call_in_select_calls)
  next
    case False
    with Inr assms show ?thesis by (simp add: delegate_def)
  qed
qed

lemma match_call_in_delegate:
  assumes "Match_call m' u \<in> set (fst (delegate h pattern v))"
  shows "matcher_prop pattern = Prim (JFun m') \<and> u = v"
proof (cases "\<exists>m. matcher_prop pattern = Prim (JFun m)")
  case True
  then obtain m where m: "matcher_prop pattern = Prim (JFun m)" ..
  from assms have "Match_call m' u \<in> set (filter is_match_call (fst (delegate h pattern v)))"
    by simp
  with m show ?thesis by (simp add: match_calls_delegate)
next
  case False
  then have "delegate h pattern v = ([], Inl TypeError)"
    by (intro delegate_not_a_function) simp
  with assms show ?thesis by simp
qed


subsection \<open>The callback on one key\<close>

lemma js_in_object: "isObject v \<Longrightarrow> js_in k v = Inr (has_property v k)"
  by (cases v) (simp_all add: js_in_def)

lemma js_in_primitive:
  "\<not> isObject v \<Longrightarrow> \<forall>f. v \<noteq> Prim (JFun f) \<Longrightarrow> js_in k v = Inl TypeError"
  by (cases v) (auto simp: js_in_def split: prim.splits)

lemma key_step_unfold:
  "key_step h k subPattern v =
     (case js_in k v of
        Inl e \<Rightarrow> ([], Inl e)
      | Inr present \<Rightarrow>
          (case (if present then Inr True else isOptionalPattern h subPattern) of
             Inl e \<Rightarrow> ([], Inl e)
           | Inr False \<Rightarrow> ([], Inr False)
           | Inr True \<Rightarrow>
               (case get_property v k of
                  Inl e \<Rightarrow> ([], Inl e)
                | Inr x \<Rightarrow> matchPattern h subPattern x)))"
  by (simp add: key_step_def)

lemma every_key_Cons:
  "every_key h ((k, subPattern) # rest) v =
     and_then (key_step h k subPattern v) (every_key h rest v)"
  by (simp add: key_step_def)

lemma key_step_present:
  "isObject v \<Longrightarrow> has_property v k \<Longrightarrow>
     key_step h k subPattern v =
       (case get_property v k of Inl e \<Rightarrow> ([], Inl e) | Inr x \<Rightarrow> matchPattern h subPattern x)"
  by (simp add: key_step_unfold js_in_object)

lemma key_step_absent:
  "isObject v \<Longrightarrow> \<not> has_property v k \<Longrightarrow>
     key_step h k subPattern v =
       (case isOptionalPattern h subPattern of
          Inl e \<Rightarrow> ([], Inl e)
        | Inr False \<Rightarrow> ([], Inr False)
        | Inr True \<Rightarrow>
            (case get_property v k of
               Inl e \<Rightarrow> ([], Inl e)
             | Inr x \<Rightarrow> matchPattern h subPattern x))"
  by (simp add: key_step_unfold js_in_object)

lemma key_step_True:
  assumes "isObject v"
  shows "snd (key_step h k subPattern v) = Inr True \<longleftrightarrow>
     (has_property v k \<or> isOptionalPattern h subPattern = Inr True)
     \<and> (\<exists>x. get_property v k = Inr x \<and> snd (matchPattern h subPattern x) = Inr True)"
proof (cases "has_property v k")
  case True
  with assms show ?thesis
    by (cases "get_property v k") (simp_all add: key_step_present)
next
  case False
  show ?thesis
  proof (cases "isOptionalPattern h subPattern")
    case (Inl e)
    with assms False show ?thesis by (simp add: key_step_absent)
  next
    case (Inr b)
    with assms False show ?thesis
      by (cases b; cases "get_property v k") (simp_all add: key_step_absent)
  qed
qed

lemma every_elem_True:
  "snd (every_elem h ps i vs) = Inr True \<longleftrightarrow>
     (\<forall>j<length ps. snd (matchPattern h (ps ! j) (array_get vs (i + j))) = Inr True)"
proof (induction ps arbitrary: i)
  case Nil
  show ?case by simp
next
  case (Cons p ps)
  show ?case
    by (simp add: snd_and_then_True Cons.IH All_less_Suc2)
qed

lemma every_key_True:
  "snd (every_key h props v) = Inr True \<longleftrightarrow>
     (\<forall>(k, sub) \<in> set props. snd (key_step h k sub v) = Inr True)"
proof (induction props)
  case Nil
  show ?case by simp
next
  case (Cons entry props)
  obtain k sub where entry: "entry = (k, sub)" by (cases entry)
  show ?case
    unfolding entry every_key_Cons by (simp add: snd_and_then_True Cons.IH)
qed

lemma key_step_same_fields:
  assumes "js_in k v = js_in k v'" and "get_property v k = get_property v' k"
  shows "key_step h k sub v = key_step h k sub v'"
  unfolding key_step_unfold assms ..

lemma every_key_same_fields:
  "\<forall>k \<in> set (Object_keys props).
      js_in k v = js_in k v' \<and> get_property v k = get_property v' k \<Longrightarrow>
   every_key h props v = every_key h props v'"
proof (induction props)
  case Nil
  show ?case by simp
next
  case (Cons entry props)
  obtain k sub where entry: "entry = (k, sub)" by (cases entry)
  from Cons.prems have "every_key h props v = every_key h props v'"
    by (intro Cons.IH) (simp add: Object_keys_def)
  moreover from Cons.prems
  have "key_step h k sub v = key_step h k sub v'"
    by (intro key_step_same_fields) (simp_all add: entry Object_keys_def)
  ultimately show ?case
    unfolding entry every_key_Cons by simp
qed

subsection \<open>Reading properties\<close>

lemma absent_property_undefined:
  "isObject v \<Longrightarrow> \<not> has_property v k \<Longrightarrow> get_property v k = Inr (Prim JUndefined)"
proof -
  assume obj: "isObject v" and "\<not> has_property v k"
  then have "map_of (properties v) k = None"
    by (simp add: has_property_def map_of_eq_None_iff)
  with obj show ?thesis by (auto simp: get_property_def)
qed

lemma map_of_own_first:
  "map_of own k = Some x \<Longrightarrow>
     map_of (map (\<lambda>(k, x). (k, Value x)) own @ others) k = Some (Value x)"
  by (induction own) auto

lemma get_own_property:
  assumes "distinct (Object_keys props)" and "(k, sub) \<in> set props"
  shows "has_property (Obj props others s) k \<and> get_property (Obj props others s) k = Inr sub"
proof -
  from assms have "map_of props k = Some sub"
    by (simp add: Object_keys_def)
  then have "map_of (properties (Obj props others s)) k = Some (Value sub)"
    unfolding properties_def own_properties.simps other_properties.simps
    by (rule map_of_own_first)
  moreover from assms(2) have "has_property (Obj props others s) k"
    by (force simp: has_property_def properties_def)
  ultimately show ?thesis by (simp add: get_property_def)
qed





subsection \<open>Which matchers are called\<close>

lemma matcher_prop_function:
  "isObject p \<Longrightarrow> matcher_prop p = Prim (JFun m) \<Longrightarrow>
     isMatcher p \<and> matcher_slot p = Some (Prim (JFun m))"
  by (cases p) (auto simp: matcher_prop_def isMatcher_def split: option.splits)

lemma match_call_in_key_step:
  assumes "Match_call m u \<in> set (fst (key_step h k sub v))"
  shows "\<exists>x. Match_call m u \<in> set (fst (matchPattern h sub x))"
proof (cases "\<exists>x. key_step h k sub v = matchPattern h sub x")
  case True
  with assms show ?thesis by auto
next
  case False
  then have "fst (key_step h k sub v) = []"
    unfolding key_step_unfold by (auto split: sum.splits bool.splits if_splits)
  with assms show ?thesis by simp
qed

lemma match_calls_every_elem:
  assumes "\<And>p v. p \<in> set ps \<Longrightarrow> Match_call m u \<in> set (fst (matchPattern h p v)) \<Longrightarrow>
              m \<in> matchers_of p"
    and "Match_call m u \<in> set (fst (every_elem h ps i vs))"
  shows "\<exists>p \<in> set ps. m \<in> matchers_of p"
  using assms
proof (induction ps arbitrary: i)
  case Nil
  then show ?case by simp
next
  case (Cons p ps)
  from Cons.prems(2) set_fst_and_then
  have "Match_call m u \<in> set (fst (matchPattern h p (array_get vs i)))
        \<or> Match_call m u \<in> set (fst (every_elem h ps (Suc i) vs))"
    by fastforce
  then show ?case
  proof
    assume "Match_call m u \<in> set (fst (matchPattern h p (array_get vs i)))"
    with Cons.prems(1) [of p] show ?thesis by simp
  next
    assume "Match_call m u \<in> set (fst (every_elem h ps (Suc i) vs))"
    with Cons.IH Cons.prems(1) show ?thesis by simp
  qed
qed

lemma match_calls_every_key:
  assumes "\<And>p v. p \<in> set (Object_values props) \<Longrightarrow>
              Match_call m u \<in> set (fst (matchPattern h p v)) \<Longrightarrow> m \<in> matchers_of p"
    and "Match_call m u \<in> set (fst (every_key h props v))"
  shows "\<exists>p \<in> set (Object_values props). m \<in> matchers_of p"
  using assms
proof (induction props)
  case Nil
  then show ?case by simp
next
  case (Cons entry props)
  obtain k sub where entry: "entry = (k, sub)" by (cases entry)
  from Cons.prems(2) set_fst_and_then [of "key_step h k sub v" "every_key h props v"]
  have "Match_call m u \<in> set (fst (key_step h k sub v))
        \<or> Match_call m u \<in> set (fst (every_key h props v))"
    unfolding entry every_key_Cons by blast
  then show ?case
  proof
    assume "Match_call m u \<in> set (fst (key_step h k sub v))"
    then obtain x where "Match_call m u \<in> set (fst (matchPattern h sub x))"
      using match_call_in_key_step by blast
    with Cons.prems(1) [of sub x] show ?thesis
      by (simp add: entry Object_values_def)
  next
    assume "Match_call m u \<in> set (fst (every_key h props v))"
    with Cons.IH Cons.prems(1) show ?thesis
      by (simp add: Object_values_def)
  qed
qed

lemma match_calls_come_from_matchers:
  "Match_call m u \<in> set (fst (matchPattern h p v)) \<Longrightarrow> m \<in> matchers_of p"
proof (induction p arbitrary: v)
  case (Prim q)
  then show ?case by simp
next
  case (Arr ps others s)
  show ?case
  proof (cases "isMatcher (Arr ps others s)")
    case True
    with Arr.prems have "Match_call m u \<in> set (fst (delegate h (Arr ps others s) v))"
      by simp
    then have "matcher_prop (Arr ps others s) = Prim (JFun m)"
      using match_call_in_delegate by blast
    then have "s = Some (Prim (JFun m))"
      using matcher_prop_function [of "Arr ps others s" m] by simp
    with True show ?thesis by simp
  next
    case False
    note not_matcher = this
    show ?thesis
    proof (cases v)
      case (Arr vs others' s')
      with Arr.prems not_matcher
      have "Match_call m u \<in> set (fst (every_elem h ps 0 vs))"
        by (simp split: if_splits)
      with Arr.IH(1) have "\<exists>p \<in> set ps. m \<in> matchers_of p"
        by (intro match_calls_every_elem) auto
      with not_matcher show ?thesis by simp
    qed (use Arr.prems not_matcher in simp_all)
  qed
next
  case (Obj props others s)
  show ?case
  proof (cases "isMatcher (Obj props others s)")
    case True
    with Obj.prems have "Match_call m u \<in> set (fst (delegate h (Obj props others s) v))"
      by simp
    then have "matcher_prop (Obj props others s) = Prim (JFun m)"
      using match_call_in_delegate by blast
    then have "s = Some (Prim (JFun m))"
      using matcher_prop_function [of "Obj props others s" m] by simp
    with True show ?thesis by simp
  next
    case False
    with Obj.prems have "Match_call m u \<in> set (fst (every_key h props v))"
      by (simp split: if_splits)
    moreover have "\<And>p v. p \<in> set (Object_values props) \<Longrightarrow>
              Match_call m u \<in> set (fst (matchPattern h p v)) \<Longrightarrow> m \<in> matchers_of p"
      using Obj.IH(1) by (force simp: Object_values_def)
    ultimately have "\<exists>p \<in> set (Object_values props). m \<in> matchers_of p"
      by (intro match_calls_every_key) auto
    with False show ?thesis by simp
  qed
qed

subsection \<open>Patterns without matchers\<close>







subsection \<open>Where exceptions come from\<close>










subsection \<open>The first sub-pattern that does not match decides\<close>



subsection \<open>Reflexivity\<close>

lemma Number_sameValue_refl: "Number_sameValue x x"
  by (simp add: Number_sameValue_def)

lemma SameValue_refl: "SameValue q q"
  by (cases q) (simp_all add: SameValue_def Number_sameValue_refl)

lemma matches_itself:
  "matcher_free p \<Longrightarrow> distinct_keys p \<Longrightarrow> snd (matchPattern h p p) = Inr True"
proof (induction p)
  case (Prim q)
  show ?case by (simp add: Object_is_def SameValue_refl)
next
  case (Arr ps others s)
  then have "\<forall>j<length ps. snd (matchPattern h (ps ! j) (array_get ps (0 + j))) = Inr True"
    by (simp add: array_get_def)
  then have "snd (every_elem h ps 0 ps) = Inr True"
    by (simp only: every_elem_True)
  with Arr.prems show ?case by simp
next
  case (Obj props others s)
  have "\<forall>(k, sub) \<in> set props. snd (key_step h k sub (Obj props others s)) = Inr True"
  proof (clarify)
    fix k sub
    assume mem: "(k, sub) \<in> set props"
    with Obj.prems have own:
      "has_property (Obj props others s) k \<and> get_property (Obj props others s) k = Inr sub"
      by (intro get_own_property) simp_all
    from mem Obj.prems have "matcher_free sub" "distinct_keys sub"
      by (force simp: Object_values_def)+
    with Obj.IH(1) [of "(k, sub)" sub] mem have "snd (matchPattern h sub sub) = Inr True"
      by simp
    with own show "snd (key_step h k sub (Obj props others s)) = Inr True"
      by (simp add: key_step_present)
  qed
  then have "snd (every_key h props (Obj props others s)) = Inr True"
    by (simp only: every_key_True)
  with Obj.prems show ?case by simp
qed

lemma matcher_free_reflexive_pure:
  "matcher_free p \<Longrightarrow> distinct_keys p \<Longrightarrow> fst (matchPattern h p p) = []"
proof (induction p)
  case (Prim q)
  show ?case by simp
next
  case (Arr ps others s)
  have "fst (every_elem h qs i vs) = []"
    if "\<forall>j<length qs. matchPattern h (qs ! j) (array_get vs (i + j)) = ([], Inr True)"
    for qs i vs
    using that
  proof (induction qs arbitrary: i)
    case Nil
    show ?case by simp
  next
    case (Cons q qs)
    from Cons.prems have "matchPattern h q (array_get vs i) = ([], Inr True)" by force
    moreover from Cons.prems
    have "\<forall>j<length qs. matchPattern h (qs ! j) (array_get vs (Suc i + j)) = ([], Inr True)"
      by force
    then have "fst (every_elem h qs (Suc i) vs) = []" by (rule Cons.IH)
    ultimately show ?case by (simp add: and_then_def)
  qed
  moreover have
    "\<forall>j<length ps. matchPattern h (ps ! j) (array_get ps (0 + j)) = ([], Inr True)"
  proof (intro allI impI)
    fix j assume j: "j < length ps"
    with Arr.prems have "matcher_free (ps ! j)" "distinct_keys (ps ! j)" by simp_all
    with Arr.IH(1) [of "ps ! j"] matches_itself [of "ps ! j" h] j
    show "matchPattern h (ps ! j) (array_get ps (0 + j)) = ([], Inr True)"
      by (simp add: array_get_def prod_eq_iff)
  qed
  ultimately have "fst (every_elem h ps 0 ps) = []" by blast
  with Arr.prems show ?case by simp
next
  case (Obj props others s)
  have step: "key_step h k sub (Obj props others s) = ([], Inr True)"
    if "(k, sub) \<in> set props" for k sub
  proof -
    from that Obj.prems have own:
      "has_property (Obj props others s) k \<and> get_property (Obj props others s) k = Inr sub"
      by (intro get_own_property) simp_all
    from that Obj.prems have "matcher_free sub" "distinct_keys sub"
      by (force simp: Object_values_def)+
    with Obj.IH(1) [of "(k, sub)" sub] matches_itself [of sub h] that
    have "matchPattern h sub sub = ([], Inr True)"
      by (simp add: prod_eq_iff)
    with own show ?thesis by (simp add: key_step_present)
  qed
  have "fst (every_key h qs (Obj props others s)) = []" if "set qs \<subseteq> set props" for qs
    using that
  proof (induction qs)
    case Nil
    show ?case by simp
  next
    case (Cons entry qs)
    obtain k sub where entry: "entry = (k, sub)" by (cases entry)
    with Cons.prems have "key_step h k sub (Obj props others s) = ([], Inr True)"
      by (intro step) simp
    moreover from Cons have "fst (every_key h qs (Obj props others s)) = []" by simp
    ultimately show ?case
      unfolding entry every_key_Cons by (simp add: and_then_def)
  qed
  then have "fst (every_key h props (Obj props others s)) = []" by simp
  with Obj.prems show ?case by simp
qed

subsection \<open>Selection keys\<close>

lemma foldl_flatMap_step:
  "foldl (\<lambda>acc p. case acc of
                     Inl e \<Rightarrow> Inl e
                   | Inr a \<Rightarrow> (case f p of Inl e \<Rightarrow> Inl e | Inr b \<Rightarrow> Inr (a @ b)))
         acc xs
   = (case acc of
        Inl e \<Rightarrow> Inl e
      | Inr a \<Rightarrow> (case concat_results (map f xs) of Inl e \<Rightarrow> Inl e | Inr ys \<Rightarrow> Inr (a @ ys)))"
proof (induction xs arbitrary: acc)
  case Nil
  show ?case by (cases acc) simp_all
next
  case (Cons x xs)
  show ?case
    by (cases acc; cases "f x"; cases "concat_results (map f xs)") (simp_all add: Cons.IH)
qed

lemma flatMap_concat: "flatMap xs f = concat_results (map f xs)"
  by (cases "concat_results (map f xs)") (simp_all add: flatMap_def foldl_flatMap_step)

lemma concat_results_all_return:
  "\<forall>x \<in> set xs. f x = Inr (g x) \<Longrightarrow> concat_results (map f xs) = Inr (concat (map g xs))"
  by (induction xs) simp_all

lemma concat_results_first_throws:
  "n < length xs \<Longrightarrow> \<forall>j<n. \<exists>ks. f (xs ! j) = Inr ks \<Longrightarrow> f (xs ! n) = Inl e \<Longrightarrow>
     concat_results (map f xs) = Inl e"
proof (induction xs arbitrary: n)
  case Nil
  then show ?case by simp
next
  case (Cons x xs)
  show ?case
  proof (cases n)
    case 0
    with Cons.prems show ?thesis by simp
  next
    case (Suc n')
    with Cons.prems(2) obtain ks where ks: "f x = Inr ks" by force
    from Suc Cons.prems have "concat_results (map f xs) = Inl e"
      by (intro Cons.IH [of n']) force+
    with ks show ?thesis by simp
  qed
qed

lemma call_matcher_prop_same:
  "(\<forall>m. matcher_getSelectionKeys (h m) = matcher_getSelectionKeys (h' m)) \<Longrightarrow>
   (case call_matcher_prop h p of
      Inl e \<Rightarrow> Inl e
    | Inr protocol \<Rightarrow>
        Inr (case matcher_getSelectionKeys protocol of None \<Rightarrow> [] | Some ks \<Rightarrow> ks))
   = (case call_matcher_prop h' p of
      Inl e \<Rightarrow> Inl e
    | Inr protocol \<Rightarrow>
        Inr (case matcher_getSelectionKeys protocol of None \<Rightarrow> [] | Some ks \<Rightarrow> ks))"
  by (auto simp: call_matcher_prop_def split: jsval.splits prim.splits)

lemma getSelectionKeys_ignores_match:
  "(\<forall>m. matcher_getSelectionKeys (h m) = matcher_getSelectionKeys (h' m)) \<Longrightarrow>
     getSelectionKeys h p = getSelectionKeys h' p"
proof (induction p)
  case (Prim q)
  show ?case by simp
next
  case (Arr ps others s)
  show ?case
  proof (cases "isMatcher (Arr ps others s)")
    case True
    with call_matcher_prop_same [OF Arr.prems] show ?thesis by simp
  next
    case False
    have "flatMap ps (getSelectionKeys h) = flatMap ps (getSelectionKeys h')"
      using Arr.IH(1) Arr.prems by (intro flatMap_cong) simp_all
    with False show ?thesis by simp
  qed
next
  case (Obj props others s)
  show ?case
  proof (cases "isMatcher (Obj props others s)")
    case True
    with call_matcher_prop_same [OF Obj.prems] show ?thesis by simp
  next
    case False
    have "flatMap (Object_values props) (getSelectionKeys h)
          = flatMap (Object_values props) (getSelectionKeys h')"
      using Obj.IH(1) Obj.prems by (intro flatMap_cong) (force simp: Object_values_def)+
    with False show ?thesis by simp
  qed
qed

subsection \<open>Evaluating on literals\<close>

lemmas literal_defs =
  object_literal_def array_literal_def keyed_object_def matcher_object_def num_def str_def

lemmas read_defs =
  isMatcher_def matcher_prop_def js_in_def has_property_def properties_def get_property_def
  isOptionalPattern_def call_matcher_prop_def
  Object_prototype_properties_def Array_prototype_properties_def

lemmas run_defs =
  delegate_def select_calls_def Object_keys_def Object_values_def and_then_def array_get_def
  Object_is_def SameValue_def Number_sameValue_def

lemma concat_results_returns:
  "\<forall>x \<in> set xs. \<exists>ks. f x = Inr ks \<Longrightarrow> \<exists>ks. concat_results (map f xs) = Inr ks"
  by (induction xs) auto

lemma getSelectionKeys_returns:
  "callable_matchers p \<Longrightarrow> \<exists>ks. getSelectionKeys h p = Inr ks"
proof (induction p)
  case (Prim q)
  show ?case by simp
next
  case (Arr ps others s)
  show ?case
  proof (cases "isMatcher (Arr ps others s)")
    case True
    with Arr.prems obtain m where "s = Some (Prim (JFun m))"
      by (auto split: option.splits jsval.splits prim.splits)
    with True show ?thesis
      by (simp add: call_matcher_prop_def matcher_prop_def)
  next
    case False
    with Arr.prems Arr.IH(1) have "\<forall>x \<in> set ps. \<exists>ks. getSelectionKeys h x = Inr ks"
      by simp
    then have "\<exists>ks. concat_results (map (getSelectionKeys h) ps) = Inr ks"
      by (rule concat_results_returns)
    with False show ?thesis by (simp add: flatMap_concat)
  qed
next
  case (Obj props others s)
  show ?case
  proof (cases "isMatcher (Obj props others s)")
    case True
    with Obj.prems obtain m where "s = Some (Prim (JFun m))"
      by (auto split: option.splits jsval.splits prim.splits)
    with True show ?thesis
      by (simp add: call_matcher_prop_def matcher_prop_def)
  next
    case False
    with Obj.prems Obj.IH(1)
    have "\<forall>x \<in> set (Object_values props). \<exists>ks. getSelectionKeys h x = Inr ks"
      by (force simp: Object_values_def)
    then have "\<exists>ks. concat_results (map (getSelectionKeys h) (Object_values props)) = Inr ks"
      by (rule concat_results_returns)
    with False show ?thesis by (simp add: flatMap_concat)
  qed
qed

lemma getSelectionKeys_matcher:
  assumes "isObject p" and "matcher_prop p = Prim (JFun m)"
  shows "getSelectionKeys h p
         = Inr (case matcher_getSelectionKeys (h m) of None \<Rightarrow> [] | Some ks \<Rightarrow> ks)"
proof -
  from assms have "isMatcher p" using matcher_prop_function by blast
  with assms show ?thesis
    by (cases p) (simp_all add: call_matcher_prop_def)
qed

lemma has_property_iff:
  "has_property v k \<longleftrightarrow>
     k \<in> fst ` set (own_properties v) \<or> k \<in> fst ` set (other_properties v)"
  by (force simp: has_property_def properties_def)

lemma isOptionalPattern_True_iff:
  "isOptionalPattern h sub = Inr True \<longleftrightarrow>
     isMatcher sub \<and> (\<exists>m. matcher_prop sub = Prim (JFun m) \<and> matcherType (h m) = Some MT_optional)"
  by (auto simp: isOptionalPattern_def call_matcher_prop_def split: jsval.splits prim.splits)

lemma single_key_pattern:
  "\<not> isMatcher (Obj [(k, sub)] others s) \<Longrightarrow> isObject v \<Longrightarrow>
     matchPattern h (Obj [(k, sub)] others s) v = key_step h k sub v"
  by (simp add: key_step_def)

lemma every_key_True_by_key:
  assumes "distinct (Object_keys props)" and "isObject v"
  shows "snd (every_key h props v) = Inr True \<longleftrightarrow>
     (\<forall>k \<in> set (Object_keys props).
        \<exists>sub. get_property (Obj props others s) k = Inr sub
          \<and> (has_property v k \<or> isOptionalPattern h sub = Inr True)
          \<and> (\<exists>x. get_property v k = Inr x \<and> snd (matchPattern h sub x) = Inr True))"
proof -
  have own: "\<And>k sub. (k, sub) \<in> set props \<Longrightarrow> get_property (Obj props others s) k = Inr sub"
    using assms(1) get_own_property by blast
  show ?thesis
    unfolding every_key_True
  proof
    assume a: "\<forall>(k, sub) \<in> set props. snd (key_step h k sub v) = Inr True"
    show "\<forall>k \<in> set (Object_keys props).
        \<exists>sub. get_property (Obj props others s) k = Inr sub
          \<and> (has_property v k \<or> isOptionalPattern h sub = Inr True)
          \<and> (\<exists>x. get_property v k = Inr x \<and> snd (matchPattern h sub x) = Inr True)"
    proof
      fix k assume "k \<in> set (Object_keys props)"
      then obtain sub where mem: "(k, sub) \<in> set props"
        by (auto simp: Object_keys_def)
      with a have "snd (key_step h k sub v) = Inr True" by blast
      with assms(2) own [OF mem]
      show "\<exists>sub. get_property (Obj props others s) k = Inr sub
          \<and> (has_property v k \<or> isOptionalPattern h sub = Inr True)
          \<and> (\<exists>x. get_property v k = Inr x \<and> snd (matchPattern h sub x) = Inr True)"
        by (simp add: key_step_True)
    qed
  next
    assume a: "\<forall>k \<in> set (Object_keys props).
        \<exists>sub. get_property (Obj props others s) k = Inr sub
          \<and> (has_property v k \<or> isOptionalPattern h sub = Inr True)
          \<and> (\<exists>x. get_property v k = Inr x \<and> snd (matchPattern h sub x) = Inr True)"
    show "\<forall>(k, sub) \<in> set props. snd (key_step h k sub v) = Inr True"
    proof (clarify)
      fix k sub assume mem: "(k, sub) \<in> set props"
      then have "k \<in> set (Object_keys props)"
        by (force simp: Object_keys_def)
      with a own [OF mem]
      have "(has_property v k \<or> isOptionalPattern h sub = Inr True)
          \<and> (\<exists>x. get_property v k = Inr x \<and> snd (matchPattern h sub x) = Inr True)"
        by auto
      with assms(2) show "snd (key_step h k sub v) = Inr True"
        by (simp add: key_step_True)
    qed
  qed
qed

lemma falsy_key_as_absent:
  assumes "\<not> truthy y"
  shows "matchPattern h (Arr ps others (Some y)) v = matchPattern h (Arr ps others None) v"
    and "matchPattern h (Obj props others (Some y)) v = matchPattern h (Obj props others None) v"
  using assms by (simp_all add: isMatcher_slot)

lemma truthy_not_function_throws:
  assumes "truthy y" and "\<forall>m. y \<noteq> Prim (JFun m)"
  shows "matchPattern h (Arr ps others (Some y)) v = ([], Inl TypeError)"
    and "matchPattern h (Obj props others (Some y)) v = ([], Inl TypeError)"
  using assms by (simp_all add: isMatcher_slot delegate_not_a_function matcher_prop_def)

lemma function_key_delegates:
  "matchPattern h (Arr ps others (Some (Prim (JFun m)))) v
     = delegate h (Obj [] [] (Some (Prim (JFun m)))) v"
  "matchPattern h (Obj props others (Some (Prim (JFun m)))) v
     = delegate h (Obj [] [] (Some (Prim (JFun m)))) v"
  by (simp_all add: delegate_def matcher_prop_def)




section \<open>Literal patterns\<close>

text \<open>
  C4. A pattern that is not an object (a bare literal) matches a value exactly when the
  value is the same value in the sense of SameValue, without any call into host code:
  the pattern NaN matches the value NaN, the pattern 0 does not match the value -0, and
  the pattern -0 does not match the value 0.
\<close>

theorem literal_pattern_same_value:
  "\<not> isObject pattern \<Longrightarrow>
     (\<exists>q. pattern = Prim q \<and>
          matchPattern h pattern v = ([], Inr (\<exists>p. v = Prim p \<and> SameValue p q)))
     \<and> matchPattern h (Prim (JNum NaN)) (Prim (JNum NaN)) = ([], Inr True)
     \<and> matchPattern h (Prim (JNum (Fin 0))) (Prim (JNum NegZero)) = ([], Inr False)
     \<and> matchPattern h (Prim (JNum NegZero)) (Prim (JNum (Fin 0))) = ([], Inr False)"
  by (cases pattern; cases v)
     (simp_all add: Object_is_def SameValue_def Number_sameValue_def)

theorem literal_pattern_same_value_witness:
  "\<not> isObject (str ''a'')
   \<and> matchPattern example_host (str ''a'') (str ''a'') = ([], Inr True)
   \<and> matchPattern example_host (str ''a'') (str ''b'') = ([], Inr False)
   \<and> matchPattern example_host (str ''a'') (object_literal []) = ([], Inr False)"
  using literal_pattern_same_value [of "str ''a''" example_host "str ''a''"]
        literal_pattern_same_value [of "str ''a''" example_host "str ''b''"]
        literal_pattern_same_value [of "str ''a''" example_host "object_literal []"]
  by (simp add: str_def object_literal_def SameValue_def)

text \<open>
  C9. A bare function given as a pattern is a literal: \<^verbatim>\<open>isObject\<close> rejects it because
  its \<^verbatim>\<open>typeof\<close> is \<^verbatim>\<open>function\<close>, so the engine makes no call at all (neither the
  function nor any matcher or callback is invoked) and the match succeeds exactly when
  the value is the very same function object.
\<close>

theorem function_pattern_is_literal:
  "typeof (Prim (JFun f)) = ''function''
   \<and> \<not> isObject (Prim (JFun f))
   \<and> matchPattern h (Prim (JFun f)) v = ([], Inr (v = Prim (JFun f)))"
  by (cases v) (auto simp: Object_is_def SameValue_def split: prim.splits)

section \<open>Matcher patterns\<close>

text \<open>
  C1. When the pattern is a matcher object (an object with the accessor function \<open>m\<close>
  under the matcher key), \<^verbatim>\<open>matchPattern\<close> calls that matcher's \<^verbatim>\<open>match\<close> with the value,
  exactly once and before anything else. If \<^verbatim>\<open>match\<close> throws, the exception is the
  outcome. If it returns, the outcome is its flag \<^verbatim>\<open>matched\<close>, and \<^verbatim>\<open>select\<close> is called
  once for each key of the returned selections, with the value stored under that key,
  exactly when \<^verbatim>\<open>matched\<close> is true and selections are present, and not at all
  otherwise. The elements and properties of the matcher object itself play no part: the
  outcome is fixed by \<open>m\<close> and the value alone, and only one \<^verbatim>\<open>match\<close> call is made.
\<close>

theorem matcher_pattern_delegates:
  assumes "isObject pattern" and "isMatcher pattern" and "matcher_prop pattern = Prim (JFun m)"
  shows "(\<forall>e. match (h m) v = Inl e \<longrightarrow> matchPattern h pattern v = ([Match_call m v], Inl e))
   \<and> (\<forall>r. match (h m) v = Inr r \<longrightarrow>
         matchPattern h pattern v =
           (Match_call m v #
              (if matched r
               then (case selections r of
                       None \<Rightarrow> []
                     | Some sels \<Rightarrow>
                         map (\<lambda>key. Select_call key
                                (case map_of sels key of None \<Rightarrow> Prim JUndefined | Some x \<Rightarrow> x))
                             (Object_keys sels))
               else []),
            Inr (matched r)))
   \<and> filter is_match_call (fst (matchPattern h pattern v)) = [Match_call m v]"
proof -
  have "matchPattern h pattern v = delegate h pattern v"
    using assms(1,2) by (rule matchPattern_matcher)
  then show ?thesis
    using delegate_throws [OF assms(3), of h v] delegate_returns [OF assms(3), of h v]
      match_calls_delegate [OF assms(3), of h v]
    by simp
qed

theorem matcher_pattern_delegates_witness:
  "isObject (matcher_object 0) \<and> isMatcher (matcher_object 0)
   \<and> matcher_prop (matcher_object 0) = Prim (JFun 0)
   \<and> matchPattern example_host (matcher_object 0) (num 1)
       = ([Match_call 0 (num 1), Select_call ''x'' (num 1)], Inr True)"
  using matcher_pattern_delegates [of "matcher_object 0" 0 example_host "num 1"]
  by (simp add: literal_defs isMatcher_def matcher_prop_def example_host_def Object_keys_def)

section \<open>Keyed patterns\<close>

text \<open>
  C2. A keyed pattern (a record that is neither an array nor a matcher object) matches a
  composite value exactly when, for every key of the pattern, the key exists in the
  value or the sub-pattern under it is an optional matcher, and the sub-pattern matches
  the value's field under that key, which is \<^verbatim>\<open>undefined\<close> when the key is absent.
  A key exists in the value when it is one of its own or of its inherited properties.
  A sub-pattern is an optional matcher when it is a matcher whose protocol has the
  matcher type \<^verbatim>\<open>optional\<close>: under a key that the value lacks, any other sub-pattern
  fails at once without being asked, even a matcher that would accept \<^verbatim>\<open>undefined\<close>,
  while an optional one is matched against \<^verbatim>\<open>undefined\<close>; under a key that the value
  has, the sub-pattern is matched against the field, optional or not.
  Keys of the value that the pattern does not have never affect the outcome: two
  composite values that agree on the pattern's keys give the same outcome. So the empty
  record pattern matches every composite value, arrays included; and a record or array
  pattern (not a matcher object) fails against a value that is not composite.
\<close>

theorem keyed_pattern_minimum_shape:
  assumes "\<not> isMatcher (Obj props others s)" and "isObject v"
    and "distinct (Object_keys props)"
  shows "(snd (matchPattern h (Obj props others s) v) = Inr True \<longleftrightarrow>
           (\<forall>k \<in> set (Object_keys props).
              \<exists>sub. get_property (Obj props others s) k = Inr sub
                \<and> (has_property v k \<or> isOptionalPattern h sub = Inr True)
                \<and> (\<exists>x. get_property v k = Inr x \<and> snd (matchPattern h sub x) = Inr True)))
     \<and> (\<forall>k. has_property v k \<longleftrightarrow>
            k \<in> fst ` set (own_properties v) \<or> k \<in> fst ` set (other_properties v))
     \<and> (\<forall>k. \<not> has_property v k \<longrightarrow> get_property v k = Inr (Prim JUndefined))
     \<and> (\<forall>sub. isOptionalPattern h sub = Inr True \<longleftrightarrow>
            isMatcher sub
            \<and> (\<exists>m. matcher_prop sub = Prim (JFun m) \<and> matcherType (h m) = Some MT_optional))
     \<and> (\<forall>k sub. \<not> has_property v k \<and> isOptionalPattern h sub = Inr False \<longrightarrow>
            matchPattern h (Obj [(k, sub)] others s) v = ([], Inr False))
     \<and> (\<forall>k sub. \<not> has_property v k \<and> isOptionalPattern h sub = Inr True \<longrightarrow>
            matchPattern h (Obj [(k, sub)] others s) v = matchPattern h sub (Prim JUndefined))
     \<and> (\<forall>k sub x. has_property v k \<and> get_property v k = Inr x \<longrightarrow>
            matchPattern h (Obj [(k, sub)] others s) v = matchPattern h sub x)
     \<and> (\<forall>v'. isObject v'
            \<and> (\<forall>k \<in> set (Object_keys props).
                  has_property v' k = has_property v k \<and> get_property v' k = get_property v k)
            \<longrightarrow> matchPattern h (Obj props others s) v' = matchPattern h (Obj props others s) v)
     \<and> matchPattern h (Obj [] others s) v = ([], Inr True)
     \<and> (\<forall>u. \<not> isObject u \<longrightarrow>
            matchPattern h (Obj props others s) u = ([], Inr False)
            \<and> matchPattern h (Arr ps others s) u = ([], Inr False))"
proof -
  have not_matcher: "\<not> isMatcher (Obj qs others s)" "\<not> isMatcher (Arr ps others s)" for qs
    using assms(1) by (simp_all add: isMatcher_slot)
  have single: "matchPattern h (Obj [(k, sub)] others s) v = key_step h k sub v" for k sub
    using not_matcher(1) assms(2) by (rule single_key_pattern)
  show ?thesis
  proof (intro conjI allI impI)
    show "snd (matchPattern h (Obj props others s) v) = Inr True \<longleftrightarrow>
           (\<forall>k \<in> set (Object_keys props).
              \<exists>sub. get_property (Obj props others s) k = Inr sub
                \<and> (has_property v k \<or> isOptionalPattern h sub = Inr True)
                \<and> (\<exists>x. get_property v k = Inr x \<and> snd (matchPattern h sub x) = Inr True))"
      using assms every_key_True_by_key [OF assms(3,2), of h others s] by simp
  next
    fix k
    show "has_property v k \<longleftrightarrow>
            k \<in> fst ` set (own_properties v) \<or> k \<in> fst ` set (other_properties v)"
      by (rule has_property_iff)
  next
    fix k assume "\<not> has_property v k"
    with assms(2) show "get_property v k = Inr (Prim JUndefined)"
      by (rule absent_property_undefined)
  next
    fix sub
    show "isOptionalPattern h sub = Inr True \<longleftrightarrow>
            isMatcher sub
            \<and> (\<exists>m. matcher_prop sub = Prim (JFun m) \<and> matcherType (h m) = Some MT_optional)"
      by (rule isOptionalPattern_True_iff)
  next
    fix k sub
    assume "\<not> has_property v k \<and> isOptionalPattern h sub = Inr False"
    with assms(2) show "matchPattern h (Obj [(k, sub)] others s) v = ([], Inr False)"
      unfolding single by (simp add: key_step_absent)
  next
    fix k sub
    assume a: "\<not> has_property v k \<and> isOptionalPattern h sub = Inr True"
    with assms(2) have "get_property v k = Inr (Prim JUndefined)"
      by (intro absent_property_undefined) simp_all
    with a assms(2)
    show "matchPattern h (Obj [(k, sub)] others s) v = matchPattern h sub (Prim JUndefined)"
      unfolding single by (simp add: key_step_absent)
  next
    fix k sub x
    assume "has_property v k \<and> get_property v k = Inr x"
    with assms(2) show "matchPattern h (Obj [(k, sub)] others s) v = matchPattern h sub x"
      unfolding single by (simp add: key_step_present)
  next
    fix v'
    assume a: "isObject v'
            \<and> (\<forall>k \<in> set (Object_keys props).
                  has_property v' k = has_property v k \<and> get_property v' k = get_property v k)"
    with assms(2) have "every_key h props v' = every_key h props v"
      by (intro every_key_same_fields) (simp add: js_in_object)
    with a assms(1,2)
    show "matchPattern h (Obj props others s) v' = matchPattern h (Obj props others s) v"
      by simp
  next
    show "matchPattern h (Obj [] others s) v = ([], Inr True)"
      using assms(2) not_matcher(1) [of "[]"] by simp
  next
    fix u assume "\<not> isObject u"
    with assms(1) show "matchPattern h (Obj props others s) u = ([], Inr False)" by simp
  next
    fix u assume "\<not> isObject u"
    with not_matcher(2) show "matchPattern h (Arr ps others s) u = ([], Inr False)" by simp
  qed
qed


theorem keyed_pattern_minimum_shape_witness:
  "\<not> isMatcher (object_literal [(''a'', matcher_object 0)])
   \<and> isObject (object_literal [])
   \<and> distinct (Object_keys [(''a'', matcher_object 0)])
   \<and> \<not> has_property (object_literal []) ''a''
   \<and> isOptionalPattern example_host (matcher_object 0) = Inr False
   \<and> matchPattern example_host (matcher_object 0) (Prim JUndefined)
       = ([Match_call 0 (Prim JUndefined), Select_call ''x'' (Prim JUndefined)], Inr True)
   \<and> matchPattern example_host (object_literal [(''a'', matcher_object 0)]) (object_literal [])
       = ([], Inr False)
   \<and> isOptionalPattern example_host (matcher_object 1) = Inr True
   \<and> matchPattern example_host (object_literal [(''a'', matcher_object 1)]) (object_literal [])
       = ([Match_call 1 (Prim JUndefined)], Inr True)
   \<and> has_property (object_literal []) ''toString''
   \<and> matchPattern example_host (object_literal [(''toString'', matcher_object 1)])
        (object_literal [])
       = ([Match_call 1 (Prim (JFun 1008))], Inr False)
   \<and> matchPattern example_host (object_literal []) (array_literal [num 1]) = ([], Inr True)
   \<and> matchPattern example_host (object_literal [(''a'', matcher_object 0)]) (num 1)
       = ([], Inr False)"
proof -
  let ?proto = "Object_prototype_properties Object_prototype"
  let ?v = "object_literal []"
  have not_matcher: "\<not> isMatcher (Obj [(''a'', matcher_object 0)] ?proto None)"
    by simp
  have obj: "isObject ?v"
    by (simp add: object_literal_def)
  have keys: "distinct (Object_keys [(''a'', matcher_object 0)])"
    by (simp add: Object_keys_def)
  note shape = keyed_pattern_minimum_shape [OF not_matcher obj keys, of example_host "[]"]
  have absent: "\<not> has_property ?v ''a''"
    by (simp add: literal_defs has_property_def properties_def Object_prototype_properties_def)
  have inherited: "has_property ?v ''toString''"
    by (simp add: literal_defs has_property_def properties_def Object_prototype_properties_def)
  have field: "get_property ?v ''toString'' = Inr (Prim (JFun 1008))"
    by (simp add: literal_defs get_property_def properties_def Object_prototype_properties_def)
  have not_optional: "isOptionalPattern example_host (matcher_object 0) = Inr False"
    by (simp add: literal_defs read_defs example_host_def)
  have optional: "isOptionalPattern example_host (matcher_object 1) = Inr True"
    by (simp add: literal_defs read_defs example_host_def)
  have run0: "matchPattern example_host (matcher_object 0) (Prim JUndefined)
       = ([Match_call 0 (Prim JUndefined), Select_call ''x'' (Prim JUndefined)], Inr True)"
    by (simp add: literal_defs read_defs example_host_def run_defs)
  have run1: "matchPattern example_host (matcher_object 1) (Prim JUndefined)
       = ([Match_call 1 (Prim JUndefined)], Inr True)"
    by (simp add: literal_defs read_defs example_host_def run_defs)
  have run2: "matchPattern example_host (matcher_object 1) (Prim (JFun 1008))
       = ([Match_call 1 (Prim (JFun 1008))], Inr False)"
    by (simp add: literal_defs read_defs example_host_def run_defs)
  from shape absent not_optional
  have r1: "matchPattern example_host (Obj [(''a'', matcher_object 0)] ?proto None) ?v
       = ([], Inr False)"
    by blast
  from shape absent optional run1
  have r2: "matchPattern example_host (Obj [(''a'', matcher_object 1)] ?proto None) ?v
       = ([Match_call 1 (Prim JUndefined)], Inr True)"
    by metis
  from shape inherited field run2
  have r3: "matchPattern example_host (Obj [(''toString'', matcher_object 1)] ?proto None) ?v
       = ([Match_call 1 (Prim (JFun 1008))], Inr False)"
    by metis
  have arr: "isObject (array_literal [num 1])"
    by (simp add: array_literal_def)
  have no_keys: "distinct (Object_keys [])"
    by (simp add: Object_keys_def)
  have not_matcher': "\<not> isMatcher (Obj [] ?proto None)"
    by simp
  from keyed_pattern_minimum_shape [OF not_matcher' arr no_keys, of example_host "[]"]
  have r4: "matchPattern example_host (Obj [] ?proto None) (array_literal [num 1]) = ([], Inr True)"
    by blast
  have "\<not> isObject (num 1)"
    by (simp add: num_def)
  with shape
  have r5: "matchPattern example_host (Obj [(''a'', matcher_object 0)] ?proto None) (num 1)
       = ([], Inr False)"
    by blast
  from not_matcher obj keys absent not_optional run0 r1 optional r2 inherited r3 r4 r5
  show ?thesis
    unfolding object_literal_def by blast
qed

section \<open>Tuple patterns\<close>

text \<open>
  C3. An array pattern (not a matcher object) matches a value exactly when the value is
  an array of exactly the same length and every sub-pattern matches the element at its
  index. Nothing variadic happens here: a longer or shorter array fails, and the empty
  array pattern matches the arrays of length zero and nothing else.
\<close>

theorem tuple_pattern_exact_length:
  assumes "\<not> isMatcher (Arr ps others s)"
  shows "(snd (matchPattern h (Arr ps others s) v) = Inr True \<longleftrightarrow>
      (\<exists>vs others' s'. v = Arr vs others' s' \<and> length vs = length ps
          \<and> (\<forall>i<length ps. snd (matchPattern h (ps ! i) (vs ! i)) = Inr True)))
   \<and> (snd (matchPattern h (Arr [] others s) v) = Inr True \<longleftrightarrow>
        (\<exists>others' s'. v = Arr [] others' s'))"
proof -
  have not_matcher: "\<not> isMatcher (Arr qs others s)" for qs
    using assms by (simp add: isMatcher_slot)
  have elems: "snd (matchPattern h (Arr qs others s) (Arr vs others' s')) = Inr True \<longleftrightarrow>
      length vs = length qs
      \<and> (\<forall>i<length qs. snd (matchPattern h (qs ! i) (vs ! i)) = Inr True)" for qs vs others' s'
  proof (cases "length qs = length vs")
    case True
    then have "\<forall>i<length qs. array_get vs (0 + i) = vs ! i"
      by (simp add: array_get_def)
    with True not_matcher [of qs] show ?thesis
      by (simp add: every_elem_True)
  next
    case False
    with not_matcher [of qs] show ?thesis by auto
  qed
  have other: "snd (matchPattern h (Arr qs others s) v) \<noteq> Inr True"
    if "\<forall>vs others' s'. v \<noteq> Arr vs others' s'" for qs
    using that not_matcher [of qs] by (cases v) simp_all
  have "snd (matchPattern h (Arr qs others s) v) = Inr True \<longleftrightarrow>
      (\<exists>vs others' s'. v = Arr vs others' s' \<and> length vs = length qs
          \<and> (\<forall>i<length qs. snd (matchPattern h (qs ! i) (vs ! i)) = Inr True))" for qs
  proof (cases "\<exists>vs others' s'. v = Arr vs others' s'")
    case True
    then obtain vs others' s' where v: "v = Arr vs others' s'" by blast
    show ?thesis unfolding v elems by simp
  next
    case False
    with other [of qs] show ?thesis by blast
  qed
  from this [of ps] this [of "[]"] show ?thesis by simp
qed

theorem tuple_pattern_exact_length_witness:
  "\<not> isMatcher (array_literal [num 1, matcher_object 2])
   \<and> snd (matchPattern example_host (array_literal [num 1, matcher_object 2])
         (array_literal [num 1, str ''b''])) = Inr True
   \<and> snd (matchPattern example_host (array_literal [num 1, matcher_object 2])
         (array_literal [num 1, str ''b'', num 3])) \<noteq> Inr True
   \<and> snd (matchPattern example_host (array_literal []) (array_literal [num 1])) \<noteq> Inr True
   \<and> snd (matchPattern example_host (array_literal []) (object_literal [])) \<noteq> Inr True"
proof -
  have a: "\<not> isMatcher (Arr [num 1, matcher_object 2]
              (Array_prototype_properties @ Object_prototype_properties Array_prototype) None)"
    by simp
  have b: "\<not> isMatcher (Arr []
              (Array_prototype_properties @ Object_prototype_properties Array_prototype) None)"
    by simp
  from tuple_pattern_exact_length [OF a, of example_host "array_literal [num 1, str ''b'']"]
       tuple_pattern_exact_length [OF a, of example_host "array_literal [num 1, str ''b'', num 3]"]
       tuple_pattern_exact_length [OF b, of example_host "array_literal [num 1]"]
       tuple_pattern_exact_length [OF b, of example_host "object_literal []"]
  show ?thesis
    by (simp add: All_less_Suc2 literal_defs isMatcher_def matcher_prop_def example_host_def
          delegate_def Object_is_def SameValue_def Number_sameValue_def)
qed

text \<open>
  C7. Calls of \<^verbatim>\<open>select\<close> are not rolled back. The tuple pattern whose first
  sub-pattern is the selecting matcher and whose second is the literal 2 fails against
  the array of 1 and 3, and yet \<^verbatim>\<open>select\<close> was called with the name \<open>x\<close> and the
  value 1 before the second element failed.
\<close>

theorem failing_match_keeps_select_calls:
  "matchPattern example_host (array_literal [matcher_object 0, num 2])
      (array_literal [num 1, num 3])
     = ([Match_call 0 (num 1), Select_call ''x'' (num 1)], Inr False)
   \<and> (\<exists>h p v tr key u. matchPattern h p v = (tr, Inr False) \<and> Select_call key u \<in> set tr)"
proof -
  have run:
    "matchPattern example_host (array_literal [matcher_object 0, num 2])
        (array_literal [num 1, num 3])
       = ([Match_call 0 (num 1), Select_call ''x'' (num 1)], Inr False)"
    by (simp add: literal_defs isMatcher_def matcher_prop_def example_host_def run_defs)
  moreover have "Select_call ''x'' (num 1) \<in> set [Match_call 0 (num 1), Select_call ''x'' (num 1)]"
    by simp
  ultimately show ?thesis by blast
qed

section \<open>Recognising matchers\<close>

text \<open>
  C5, as the claim states it, fails: an object that exposes a property under the
  matcher key is not treated as a matcher when the value of that property is falsy.
  The record with the property \<open>a\<close> equal to 1 and \<^verbatim>\<open>null\<close> under the matcher key is
  compared key by key: it matches the record with \<open>a\<close> equal to 1, does not match the
  one with \<open>a\<close> equal to 2, and no \<^verbatim>\<open>match\<close> is called.
\<close>

theorem matcher_key_with_falsy_value_counterexample:
  "has_matcher_key (keyed_object [(''a'', num 1)] (Prim JNull))
   \<and> \<not> isMatcher (keyed_object [(''a'', num 1)] (Prim JNull))
   \<and> matchPattern example_host (keyed_object [(''a'', num 1)] (Prim JNull))
        (object_literal [(''a'', num 1)]) = ([], Inr True)
   \<and> matchPattern example_host (keyed_object [(''a'', num 1)] (Prim JNull))
        (object_literal [(''a'', num 2)]) = ([], Inr False)"
  by (simp add: literal_defs has_matcher_key_def read_defs run_defs)

text \<open>
  C5, amended. Whether an object is a matcher is decided by the truthiness of the value
  stored under the matcher key. An object whose value under that key is truthy is
  treated as a matcher and never compared by position or by key, whatever its shape:
  when the value is a function, the accessor, the object is delegated to entirely (an
  array and a record carrying the same accessor give the same outcome for every choice
  of elements and properties, with the one call of that accessor's \<^verbatim>\<open>match\<close> on the whole
  value); when it is not a function, calling it is a \<^verbatim>\<open>TypeError\<close>. An object whose
  property under the key is absent or holds a falsy value is never delegated to: it is
  compared structurally, exactly as if the property were not there, and \<^verbatim>\<open>match\<close> is
  only ever called on accessors of objects that \<^verbatim>\<open>isMatcher\<close> accepts.
\<close>

theorem matcher_recognised_by_truthy_key:
  "(isObject p \<longrightarrow> (isMatcher p \<longleftrightarrow> has_matcher_key p \<and> truthy (matcher_prop p)))
   \<and> matchPattern h (Arr ps others (Some (Prim (JFun m)))) v
       = matchPattern h (Obj props others' (Some (Prim (JFun m)))) v
   \<and> filter is_match_call (fst (matchPattern h (Arr ps others (Some (Prim (JFun m)))) v))
       = [Match_call m v]
   \<and> filter is_match_call (fst (matchPattern h (Obj props others (Some (Prim (JFun m)))) v))
       = [Match_call m v]
   \<and> (truthy y \<and> (\<forall>m. y \<noteq> Prim (JFun m)) \<longrightarrow>
        matchPattern h (Arr ps others (Some y)) v = ([], Inl TypeError)
        \<and> matchPattern h (Obj props others (Some y)) v = ([], Inl TypeError))
   \<and> (\<not> truthy y \<longrightarrow>
        matchPattern h (Arr ps others (Some y)) v = matchPattern h (Arr ps others None) v
        \<and> matchPattern h (Obj props others (Some y)) v = matchPattern h (Obj props others None) v)
   \<and> (\<forall>m' u. Match_call m' u \<in> set (fst (matchPattern h p v)) \<longrightarrow> m' \<in> matchers_of p)
   \<and> (isObject p \<and> \<not> isMatcher p \<and> \<not> isObject v \<longrightarrow> matchPattern h p v = ([], Inr False))"
proof (intro conjI allI impI)
  assume "isObject p"
  then show "isMatcher p \<longleftrightarrow> has_matcher_key p \<and> truthy (matcher_prop p)"
    by (cases p) (auto simp: isMatcher_def has_matcher_key_def matcher_prop_def
                     split: option.splits)
next
  show "matchPattern h (Arr ps others (Some (Prim (JFun m)))) v
       = matchPattern h (Obj props others' (Some (Prim (JFun m)))) v"
    by (simp only: function_key_delegates)
next
  show "filter is_match_call (fst (matchPattern h (Arr ps others (Some (Prim (JFun m)))) v))
       = [Match_call m v]"
    by (simp add: match_calls_delegate matcher_prop_def)
next
  show "filter is_match_call (fst (matchPattern h (Obj props others (Some (Prim (JFun m)))) v))
       = [Match_call m v]"
    by (simp add: match_calls_delegate matcher_prop_def)
next
  assume "truthy y \<and> (\<forall>m. y \<noteq> Prim (JFun m))"
  then show "matchPattern h (Arr ps others (Some y)) v = ([], Inl TypeError)"
    by (intro truthy_not_function_throws) simp_all
next
  assume "truthy y \<and> (\<forall>m. y \<noteq> Prim (JFun m))"
  then show "matchPattern h (Obj props others (Some y)) v = ([], Inl TypeError)"
    by (intro truthy_not_function_throws) simp_all
next
  assume "\<not> truthy y"
  then show "matchPattern h (Arr ps others (Some y)) v = matchPattern h (Arr ps others None) v"
    by (rule falsy_key_as_absent)
next
  assume "\<not> truthy y"
  then show "matchPattern h (Obj props others (Some y)) v
             = matchPattern h (Obj props others None) v"
    by (rule falsy_key_as_absent)
next
  fix m' u
  assume "Match_call m' u \<in> set (fst (matchPattern h p v))"
  then show "m' \<in> matchers_of p"
    by (rule match_calls_come_from_matchers)
next
  assume "isObject p \<and> \<not> isMatcher p \<and> \<not> isObject v"
  then show "matchPattern h p v = ([], Inr False)"
    by (cases p) simp_all
qed

theorem matcher_recognised_by_truthy_key_witness:
  "isObject (keyed_object [] (Prim (JFun 0)))
   \<and> isMatcher (keyed_object [] (Prim (JFun 0)))
   \<and> matchPattern example_host (Arr [num 1] [] (Some (Prim (JFun 0)))) (str ''s'')
       = ([Match_call 0 (str ''s''), Select_call ''x'' (str ''s'')], Inr True)
   \<and> matchPattern example_host (Obj [(''a'', num 1)] [] (Some (Prim (JFun 0)))) (str ''s'')
       = ([Match_call 0 (str ''s''), Select_call ''x'' (str ''s'')], Inr True)
   \<and> truthy (num 1)
   \<and> matchPattern example_host (Obj [(''a'', num 1)] [] (Some (num 1))) (str ''s'')
       = ([], Inl TypeError)
   \<and> \<not> truthy (Prim JNull)
   \<and> matchPattern example_host (Obj [(''a'', num 1)] [] (Some (Prim JNull)))
        (object_literal [(''a'', num 1)]) = ([], Inr True)
   \<and> isObject (array_literal [num 1]) \<and> \<not> isMatcher (array_literal [num 1])
   \<and> \<not> isObject (str ''s'')
   \<and> matchPattern example_host (array_literal [num 1]) (str ''s'') = ([], Inr False)"
proof -
  have t: "truthy (num 1)" "\<forall>m. num 1 \<noteq> Prim (JFun m)" by (simp_all add: num_def)
  have f: "\<not> truthy (Prim JNull)" by simp
  have plain: "matchPattern example_host (Obj [(''a'', num 1)] [] None)
        (object_literal [(''a'', num 1)]) = ([], Inr True)"
    by (simp add: literal_defs read_defs run_defs)
  have run: "matchPattern example_host (Obj [(''a'', num 1)] [] (Some (Prim (JFun 0)))) (str ''s'')
       = ([Match_call 0 (str ''s''), Select_call ''x'' (str ''s'')], Inr True)"
    by (simp add: literal_defs read_defs run_defs example_host_def)
  have a: "isObject (array_literal [num 1]) \<and> \<not> isMatcher (array_literal [num 1])
             \<and> \<not> isObject (str ''s'')"
    by (simp add: literal_defs)
  have k: "isObject (keyed_object [] (Prim (JFun 0)))"
    by (simp add: keyed_object_def)
  note one = matcher_recognised_by_truthy_key
      [of "keyed_object [] (Prim (JFun 0))" example_host "[num 1]" "[]" 0 "str ''s''"
          "[(''a'', num 1)]" "[]" "num 1"]
  note two = matcher_recognised_by_truthy_key
      [of "array_literal [num 1]" example_host "[num 1]" "[]" 0 "object_literal [(''a'', num 1)]"
          "[(''a'', num 1)]" "[]" "Prim JNull"]
  note three = matcher_recognised_by_truthy_key
      [of "array_literal [num 1]" example_host "[num 1]" "[]" 0 "str ''s''"
          "[(''a'', num 1)]" "[]" "Prim JNull"]
  from one k have m: "isMatcher (keyed_object [] (Prim (JFun 0)))"
    by (simp add: keyed_object_def has_matcher_key_def matcher_prop_def)
  from one run have same:
    "matchPattern example_host (Arr [num 1] [] (Some (Prim (JFun 0)))) (str ''s'')
       = ([Match_call 0 (str ''s''), Select_call ''x'' (str ''s'')], Inr True)"
    by simp
  from one t have err:
    "matchPattern example_host (Obj [(''a'', num 1)] [] (Some (num 1))) (str ''s'')
       = ([], Inl TypeError)"
    by blast
  from two f plain have falsy:
    "matchPattern example_host (Obj [(''a'', num 1)] [] (Some (Prim JNull)))
        (object_literal [(''a'', num 1)]) = ([], Inr True)"
    by simp
  from three a have mismatch:
    "matchPattern example_host (array_literal [num 1]) (str ''s'') = ([], Inr False)"
    by blast
  from k m same run t(1) err f falsy a mismatch show ?thesis by blast
qed

section \<open>Exceptions\<close>





section \<open>Selection keys\<close>

text \<open>
  C8. \<^verbatim>\<open>getSelectionKeys\<close> of a matcher object is what the matcher's own
  \<^verbatim>\<open>getSelectionKeys\<close> returns, and the empty list when the matcher has no such method;
  of an array or record pattern it is the concatenation, from left to right, of the
  selection keys of the elements or of the property values (and if computing the keys
  of one of them throws, the first such exception); of a pattern that is not an object
  it is empty. It returns a list for every pattern whose matcher objects have a function
  under the matcher key. No \<^verbatim>\<open>match\<close> is involved: two hosts whose matchers agree on
  \<^verbatim>\<open>getSelectionKeys\<close> give the same keys, whatever their \<^verbatim>\<open>match\<close> functions do.
\<close>

theorem getSelectionKeys_by_shape:
  "(isObject p \<and> matcher_prop p = Prim (JFun m) \<longrightarrow>
      getSelectionKeys h p
        = Inr (case matcher_getSelectionKeys (h m) of None \<Rightarrow> [] | Some ks \<Rightarrow> ks))
   \<and> (\<not> isMatcher (Arr ps others s) \<and> (\<forall>x \<in> set ps. getSelectionKeys h x = Inr (keys x)) \<longrightarrow>
        getSelectionKeys h (Arr ps others s) = Inr (concat (map keys ps)))
   \<and> (\<not> isMatcher (Obj props others s)
        \<and> (\<forall>x \<in> set (Object_values props). getSelectionKeys h x = Inr (keys x)) \<longrightarrow>
        getSelectionKeys h (Obj props others s) = Inr (concat (map keys (Object_values props))))
   \<and> (\<not> isMatcher (Arr ps others s) \<and> n < length ps
        \<and> (\<forall>j<n. \<exists>ks. getSelectionKeys h (ps ! j) = Inr ks)
        \<and> getSelectionKeys h (ps ! n) = Inl e \<longrightarrow>
        getSelectionKeys h (Arr ps others s) = Inl e)
   \<and> (\<not> isMatcher (Obj props others s) \<and> n < length props
        \<and> (\<forall>j<n. \<exists>ks. getSelectionKeys h (Object_values props ! j) = Inr ks)
        \<and> getSelectionKeys h (Object_values props ! n) = Inl e \<longrightarrow>
        getSelectionKeys h (Obj props others s) = Inl e)
   \<and> (\<not> isObject p \<longrightarrow> getSelectionKeys h p = Inr [])
   \<and> (callable_matchers p \<longrightarrow> (\<exists>ks. getSelectionKeys h p = Inr ks))
   \<and> ((\<forall>m. matcher_getSelectionKeys (h m) = matcher_getSelectionKeys (h' m)) \<longrightarrow>
        getSelectionKeys h p = getSelectionKeys h' p)"
proof (intro conjI impI)
  assume "isObject p \<and> matcher_prop p = Prim (JFun m)"
  then show "getSelectionKeys h p
        = Inr (case matcher_getSelectionKeys (h m) of None \<Rightarrow> [] | Some ks \<Rightarrow> ks)"
    by (intro getSelectionKeys_matcher) simp_all
next
  assume "\<not> isMatcher (Arr ps others s) \<and> (\<forall>x \<in> set ps. getSelectionKeys h x = Inr (keys x))"
  then show "getSelectionKeys h (Arr ps others s) = Inr (concat (map keys ps))"
    by (simp add: flatMap_concat concat_results_all_return)
next
  assume "\<not> isMatcher (Obj props others s)
        \<and> (\<forall>x \<in> set (Object_values props). getSelectionKeys h x = Inr (keys x))"
  then show "getSelectionKeys h (Obj props others s)
        = Inr (concat (map keys (Object_values props)))"
    by (simp add: flatMap_concat concat_results_all_return)
next
  assume a: "\<not> isMatcher (Arr ps others s) \<and> n < length ps
        \<and> (\<forall>j<n. \<exists>ks. getSelectionKeys h (ps ! j) = Inr ks)
        \<and> getSelectionKeys h (ps ! n) = Inl e"
  then have "concat_results (map (getSelectionKeys h) ps) = Inl e"
    by (intro concat_results_first_throws [of n]) simp_all
  with a show "getSelectionKeys h (Arr ps others s) = Inl e"
    by (simp add: flatMap_concat)
next
  assume a: "\<not> isMatcher (Obj props others s) \<and> n < length props
        \<and> (\<forall>j<n. \<exists>ks. getSelectionKeys h (Object_values props ! j) = Inr ks)
        \<and> getSelectionKeys h (Object_values props ! n) = Inl e"
  then have "n < length (Object_values props)"
    by (simp add: Object_values_def)
  with a have "concat_results (map (getSelectionKeys h) (Object_values props)) = Inl e"
    by (intro concat_results_first_throws [of n]) simp_all
  with a show "getSelectionKeys h (Obj props others s) = Inl e"
    by (simp add: flatMap_concat)
next
  assume "\<not> isObject p"
  then show "getSelectionKeys h p = Inr []"
    by (cases p) simp_all
next
  assume "callable_matchers p"
  then show "\<exists>ks. getSelectionKeys h p = Inr ks"
    by (rule getSelectionKeys_returns)
next
  assume "\<forall>m. matcher_getSelectionKeys (h m) = matcher_getSelectionKeys (h' m)"
  then show "getSelectionKeys h p = getSelectionKeys h' p"
    by (rule getSelectionKeys_ignores_match)
qed

theorem getSelectionKeys_by_shape_witness:
  "isObject (matcher_object 0) \<and> matcher_prop (matcher_object 0) = Prim (JFun 0)
   \<and> getSelectionKeys example_host (matcher_object 0) = Inr [''x'']
   \<and> isObject (matcher_object 2) \<and> matcher_prop (matcher_object 2) = Prim (JFun 2)
   \<and> getSelectionKeys example_host (matcher_object 2) = Inr []
   \<and> \<not> isMatcher (array_literal
        [matcher_object 0, object_literal [(''a'', matcher_object 2), (''b'', matcher_object 0)]])
   \<and> getSelectionKeys example_host
        (array_literal
          [matcher_object 0, object_literal [(''a'', matcher_object 2), (''b'', matcher_object 0)]])
       = Inr [''x'', ''x'']
   \<and> \<not> isObject (str ''x'')
   \<and> getSelectionKeys example_host (str ''x'') = Inr []"
  using getSelectionKeys_by_shape
          [of "matcher_object 0" 0 example_host "[]" "[]" None "\<lambda>x. []" "[]" 0 TypeError example_host]
        getSelectionKeys_by_shape
          [of "matcher_object 2" 2 example_host "[]" "[]" None "\<lambda>x. []" "[]" 0 TypeError example_host]
        getSelectionKeys_by_shape
          [of "str ''x''" 0 example_host "[]" "[]" None "\<lambda>x. []" "[]" 0 TypeError example_host]
  by (simp add: literal_defs isMatcher_def matcher_prop_def call_matcher_prop_def
        example_host_def Object_values_def flatMap_def)

section \<open>Reflexivity\<close>

text \<open>
  C10. Matching is reflexive on patterns without matchers: a finite pattern built from
  literals, arrays and plain records only (each record having every key once, as
  JavaScript objects do) matches itself, and no callback is called on the way.
\<close>

theorem matcher_free_pattern_matches_itself:
  "matcher_free p \<Longrightarrow> distinct_keys p \<Longrightarrow> matchPattern h p p = ([], Inr True)"
proof -
  assume free: "matcher_free p" and wf: "distinct_keys p"
  then have "fst (matchPattern h p p) = []"
    by (rule matcher_free_reflexive_pure)
  moreover from free wf have "snd (matchPattern h p p) = Inr True"
    by (rule matches_itself)
  ultimately show ?thesis by (simp add: prod_eq_iff)
qed

theorem matcher_free_pattern_matches_itself_witness:
  "matcher_free (object_literal
      [(''a'', array_literal [Prim (JNum NaN), str ''s'']), (''f'', Prim (JFun 7))])
   \<and> distinct_keys (object_literal
      [(''a'', array_literal [Prim (JNum NaN), str ''s'']), (''f'', Prim (JFun 7))])
   \<and> matchPattern example_host
        (object_literal [(''a'', array_literal [Prim (JNum NaN), str ''s'']), (''f'', Prim (JFun 7))])
        (object_literal [(''a'', array_literal [Prim (JNum NaN), str ''s'']), (''f'', Prim (JFun 7))])
       = ([], Inr True)"
proof -
  let ?p = "object_literal
      [(''a'', array_literal [Prim (JNum NaN), str ''s'']), (''f'', Prim (JFun 7))]"
  have free: "matcher_free ?p"
    by (simp add: literal_defs Object_values_def)
  have wf: "distinct_keys ?p"
    by (simp add: literal_defs Object_values_def Object_keys_def)
  from matcher_free_pattern_matches_itself [OF free wf, of example_host] free wf
  show ?thesis by blast
qed

end
